theory Spec2Isabelle
  imports Complex_Main "HOL-Library.AList" "HOL-Library.List_Lexorder" "HOL-Library.Char_ord"
begin

section \<open>Python values, exceptions and dictionaries\<close>

text \<open>
  The values found in a weathering block: numbers and strings (the time stamp). Numbers
  are Python ints; the floats of a real run are not modelled beyond their order.
\<close>

datatype pyval = PInt int | PStr string

text \<open>
  The exceptions that the modelled code can raise. \<open>OtherError\<close> stands for an instance of
  any other subclass of \<open>Exception\<close>, with its message. \<open>GreenletExit\<close> is not an
  \<open>Exception\<close> in Python (an \<open>except Exception\<close> clause does not catch it) and is kept
  apart in \<open>raised\<close>.
\<close>

datatype exn =
    StopIteration
  | KeyError string
  | TypeError
  | ValueError
  | IndexError
  | AttributeError
  | FileNotFoundError string
  | OtherError string

datatype raised = Exc exn | GreenletExit

text \<open>A Python \<open>dict\<close>: an association list in insertion order, read with \<open>map_of\<close>.\<close>

type_synonym ('k, 'v) dict = "('k \<times> 'v) list"

definition dict_set :: "('k, 'v) dict \<Rightarrow> 'k \<Rightarrow> 'v \<Rightarrow> ('k, 'v) dict" where
  "dict_set d k v = AList.update k v d"

definition dict_in :: "'k \<Rightarrow> ('k, 'v) dict \<Rightarrow> bool" where
  "dict_in k d = (case map_of d k of None \<Rightarrow> False | Some _ \<Rightarrow> True)"

text \<open>\<open>d[k]\<close> for a string key: \<open>KeyError\<close> when the key is absent.\<close>

definition dict_item :: "(string, 'v) dict \<Rightarrow> string \<Rightarrow> exn + 'v" where
  "dict_item d k = (case map_of d k of None \<Rightarrow> Inl (KeyError k) | Some v \<Rightarrow> Inr v)"

type_synonym block = "(string, pyval) dict"

text \<open>\<open>a < b\<close> on Python values: defined within one type, \<open>TypeError\<close> across types.\<close>

fun py_lt :: "pyval \<Rightarrow> pyval \<Rightarrow> exn + bool" where
  "py_lt (PInt a) (PInt b) = Inr (a < b)"
| "py_lt (PStr a) (PStr b) = Inr (a < b)"
| "py_lt _ _ = Inl TypeError"

text \<open>
  The builtin \<open>min\<close>: the first item is the candidate, and each later \<open>item\<close> replaces it
  when \<open>item < candidate\<close>. \<open>max\<close> does the same with \<open>item > candidate\<close>.
\<close>

fun min_loop :: "pyval \<Rightarrow> pyval list \<Rightarrow> exn + pyval" where
  "min_loop m [] = Inr m"
| "min_loop m (x # xs) =
     (case py_lt x m of Inl e \<Rightarrow> Inl e | Inr b \<Rightarrow> min_loop (if b then x else m) xs)"

fun max_loop :: "pyval \<Rightarrow> pyval list \<Rightarrow> exn + pyval" where
  "max_loop m [] = Inr m"
| "max_loop m (x # xs) =
     (case py_lt m x of Inl e \<Rightarrow> Inl e | Inr b \<Rightarrow> max_loop (if b then x else m) xs)"

definition py_min :: "pyval list \<Rightarrow> exn + pyval" where
  "py_min vs = (case vs of [] \<Rightarrow> Inl ValueError | v # rest \<Rightarrow> min_loop v rest)"

definition py_max :: "pyval list \<Rightarrow> exn + pyval" where
  "py_max vs = (case vs of [] \<Rightarrow> Inl ValueError | v # rest \<Rightarrow> max_loop v rest)"

section \<open>Ensemble aggregation (execute_async_model, lines 266 to 310)\<close>

text \<open>
  What one uncertainty worker returns for a step: an output record (named blocks), or a
  tuple. \<open>ExcTuple e\<close> is a tuple of length at least 3 whose second element is the
  \<open>Exception\<close> instance \<open>e\<close> and whose third is its traceback; \<open>OtherTuple\<close> is any other
  tuple, on which a string subscript is a \<open>TypeError\<close>.
\<close>

datatype step_output =
    Fragment "(string, block) dict"
  | ExcTuple exn
  | OtherTuple

text \<open>The combined weathering record: string keys and worker-index keys.\<close>

datatype fo_key = SKey string | IKey nat

datatype fo_val = FVal pyval | FBlock block | FNone

type_synonym full_output = "(fo_key, fo_val) dict"

text \<open>
  A value of the step record: a block as the model produced it, the combined weathering
  record, or a response time (a difference of two clock readings).
\<close>

datatype out_val = Block block | Full full_output | Metric real

type_synonym step_record = "(string, out_val) dict"

text \<open>\<open>aggregate[k].append(v)\<close> on a \<open>defaultdict(list)\<close>.\<close>

definition agg_append :: "(string, pyval list) dict \<Rightarrow> string \<Rightarrow> pyval \<Rightarrow> (string, pyval list) dict" where
  "agg_append agg k v =
     dict_set agg k ((case map_of agg k of None \<Rightarrow> [] | Some vs \<Rightarrow> vs) @ [v])"

fun agg_items :: "(string, pyval list) dict \<Rightarrow> block \<Rightarrow> (string, pyval list) dict" where
  "agg_items agg [] = agg"
| "agg_items agg ((k, v) # kvs) = agg_items (agg_append agg k v) kvs"

text \<open>\<open>step_output['WeatheringOutput']\<close>.\<close>

fun weathering_of :: "step_output \<Rightarrow> exn + block" where
  "weathering_of (Fragment d) = dict_item d ''WeatheringOutput''"
| "weathering_of (ExcTuple e) = Inl TypeError"
| "weathering_of OtherTuple = Inl TypeError"

text \<open>
  The first loop over the workers' results (lines 273 to 284): a result that encodes a
  failure raises that failure; otherwise the items of its weathering block are appended.
\<close>

fun collect :: "(string, pyval list) dict \<Rightarrow> step_output list \<Rightarrow> exn + (string, pyval list) dict" where
  "collect agg [] = Inr agg"
| "collect agg (ExcTuple e # rest) = Inl e"
| "collect agg (s # rest) =
     (case weathering_of s of
        Inl e \<Rightarrow> Inl e
      | Inr b \<Rightarrow> collect (agg_items agg b) rest)"

text \<open>The second loop (lines 286 to 288): \<open>low[k] = min(v); high[k] = max(v)\<close>.\<close>

fun low_high :: "block \<Rightarrow> block \<Rightarrow> (string, pyval list) dict \<Rightarrow> exn + (block \<times> block)" where
  "low_high low high [] = Inr (low, high)"
| "low_high low high ((k, vs) # rest) =
     (case py_min vs of
        Inl e \<Rightarrow> Inl e
      | Inr lo \<Rightarrow>
          (case py_max vs of
             Inl e \<Rightarrow> Inl e
           | Inr hi \<Rightarrow> low_high (dict_set low k lo) (dict_set high k hi) rest))"

text \<open>The third loop (lines 295 and 296): \<open>full_output[idx] = step_output['WeatheringOutput']\<close>.\<close>

fun per_worker :: "full_output \<Rightarrow> nat \<Rightarrow> step_output list \<Rightarrow> exn + full_output" where
  "per_worker fo idx [] = Inr fo"
| "per_worker fo idx (s # rest) =
     (case weathering_of s of
        Inl e \<Rightarrow> Inl e
      | Inr b \<Rightarrow> per_worker (dict_set fo (IKey idx) (FBlock b)) (Suc idx) rest)"

text \<open>
  Lines 266 to 310. \<open>steps\<close> is what \<open>get_uncertain_steps\<close> returned (\<open>None\<close> or the list of
  the workers' results; \<open>None\<close> and the empty list are both false in \<open>if steps\<close>), \<open>raw\<close> the record \<open>active_model.step()\<close> returned, and \<open>begin\<close>,
  \<open>begin_uncertain\<close>, \<open>end\<close> the three clock readings of lines 258 to 264.
\<close>

definition attach_metrics :: "real \<Rightarrow> real \<Rightarrow> real \<Rightarrow> step_record \<Rightarrow> full_output \<Rightarrow> step_record" where
  "attach_metrics t_begin t_begin_uncertain t_end out fo =
     dict_set
       (dict_set (dict_set out ''WeatheringOutput'' (Full fo))
          ''uncertain_response_time'' (Metric (t_end - t_begin_uncertain)))
       ''total_response_time'' (Metric (t_end - t_begin))"

definition aggregate_step ::
  "real \<Rightarrow> real \<Rightarrow> real \<Rightarrow> step_output list option \<Rightarrow> (string, block) dict \<Rightarrow> exn + step_record" where
  "aggregate_step t_begin t_begin_uncertain t_end steps raw =
     (let out = map (\<lambda>(k, b). (k, Block b)) raw;
          ss = (case steps of None \<Rightarrow> [] | Some l \<Rightarrow> l) in
      if ss \<noteq> [] \<and> dict_in ''WeatheringOutput'' raw then
        (case dict_item raw ''WeatheringOutput'' of
           Inl e \<Rightarrow> Inl e
         | Inr nominal \<Rightarrow>
        (case collect [] ss of
           Inl e \<Rightarrow> Inl e
         | Inr aggregate \<Rightarrow>
        (case low_high [] [] aggregate of
           Inl e \<Rightarrow> Inl e
         | Inr (low, high) \<Rightarrow>
        (case dict_item nominal ''time_stamp'' of
           Inl e \<Rightarrow> Inl e
         | Inr ts \<Rightarrow>
        (case per_worker
                [(SKey ''time_stamp'', FVal ts), (SKey ''nominal'', FBlock nominal),
                 (SKey ''low'', FBlock low), (SKey ''high'', FBlock high)]
                0 ss of
           Inl e \<Rightarrow> Inl e
         | Inr fo \<Rightarrow> Inr (attach_metrics t_begin t_begin_uncertain t_end out fo))))))
      else if dict_in ''WeatheringOutput'' raw then
        (case dict_item raw ''WeatheringOutput'' of
           Inl e \<Rightarrow> Inl e
         | Inr nominal \<Rightarrow>
        (case dict_item nominal ''time_stamp'' of
           Inl e \<Rightarrow> Inl e
         | Inr ts \<Rightarrow>
             Inr (attach_metrics t_begin t_begin_uncertain t_end out
                    [(SKey ''time_stamp'', FVal ts), (SKey ''nominal'', FBlock nominal),
                     (SKey ''low'', FNone), (SKey ''high'', FNone)])))
      else Inr out)"

section \<open>The server state\<close>

type_synonym sid = string

type_synonym session_id = string

text \<open>
  A value of a socket session: a number (\<open>num_sent\<close>), the session's gate (the gevent
  \<open>Event\<close> under \<open>lock\<close>), or anything else. The gate is an object shared by every copy of the
  session, so its flag lives in \<open>gates\<close> and not in the session.
\<close>

datatype sval = SInt int | SLock | SOther string

type_synonym session = "(string, sval) dict"

text \<open>An emitted event: its name, its payload and the \<open>room\<close> argument, if one was given.\<close>

datatype payload = NoPayload | Msg string | Rec step_record | Count int

type_synonym event = "string \<times> payload \<times> sid option"

record outputter =
  o_id :: string
  filename :: string

text \<open>
  The model, as far as this code consumes it. \<open>step\<close> is not part of the record: what each
  call of \<open>active_model.step()\<close> returns or raises comes from the run's environment below.
\<close>

record model =
  current_time_step :: int
  has_weathering_uncertainty :: bool
  outputters :: "outputter list"

text \<open>A file: plain data, or a zip archive (deflated) with its entries in order.\<close>

datatype content = Data string | Zip "(string \<times> content) list"

text \<open>How a greenlet ended: \<open>Returned\<close> is a normal return, \<open>Raised r\<close> an exception that left
  the function (\<open>GreenletExit\<close> included).\<close>

datatype outcome = Returned | Raised raised

text \<open>
  A callback linked to a greenlet. The only one in this code is the export cleanup, a
  closure over the temporary outputters, the model's file name, the session directory,
  the socket id and the request.
\<close>

datatype link = ExportCleanup "outputter list" string string sid session_id

text \<open>
  A greenlet. \<open>alive\<close> is its truth value in gevent: started and not yet dead.
  \<open>kill_pending\<close>: a kill was requested with \<open>block=False\<close> and is not yet delivered.
\<close>

record greenlet =
  gl_sockid :: sid
  gl_session :: session_id
  alive :: bool
  kill_pending :: bool
  links :: "link list"

record server =
  sio_ns :: bool
  sessions :: "sid \<Rightarrow> session"
  gates :: "sid \<Rightarrow> bool"
  active_greenlets :: "sid \<rightharpoonup> nat"
  greenlets :: "greenlet list"
  models :: "session_id \<rightharpoonup> model"
  uncertain_models :: "session_id \<Rightarrow> bool"
  sockid_of :: "session_id \<rightharpoonup> sid"
  is_async :: bool
  session_locked :: "session_id \<Rightarrow> bool"
  files :: "string \<rightharpoonup> content"
  events :: "event list"

definition emit :: "string \<Rightarrow> payload \<Rightarrow> sid option \<Rightarrow> server \<Rightarrow> server" where
  "emit name p room srv = srv\<lparr>events := events srv @ [(name, p, room)]\<rparr>"

definition save_session :: "sid \<Rightarrow> session \<Rightarrow> server \<Rightarrow> server" where
  "save_session sockid s srv = srv\<lparr>sessions := (sessions srv)(sockid := s)\<rparr>"

definition update_model :: "session_id \<Rightarrow> (model \<Rightarrow> model) \<Rightarrow> server \<Rightarrow> server" where
  "update_model sess f srv =
     (case models srv sess of
        None \<Rightarrow> srv
      | Some m \<Rightarrow> srv\<lparr>models := (models srv)(sess \<mapsto> f m)\<rparr>)"

text \<open>\<open>greenlet.kill(block=False)\<close>: the request is recorded and the caller goes on.\<close>

definition kill_nonblocking :: "nat \<Rightarrow> server \<Rightarrow> server" where
  "kill_nonblocking g srv =
     (if g < length (greenlets srv)
      then srv\<lparr>greenlets := (greenlets srv)[g := (greenlets srv ! g)\<lparr>kill_pending := True\<rparr>]\<rparr>
      else srv)"

text \<open>
  Modelled from the spec: \<open>on_model_kill\<close> of the socket namespace is not in the source.
  The spec's \<open>kill(session_id)\<close> requests cooperative cancellation of the session's active
  task without blocking the caller; the task observes it at its next suspension point.
\<close>

definition on_model_kill :: "sid \<Rightarrow> server \<Rightarrow> server" where
  "on_model_kill sockid srv =
     (case active_greenlets srv sockid of
        None \<Rightarrow> srv
      | Some g \<Rightarrow> kill_nonblocking g srv)"

text \<open>
  Modelled from the spec: the session management functions are not in the source. Dropping
  resets the uncertainty workers' state, setting establishes workers, and
  \<open>get_uncertain_models\<close> is false when there are none.
\<close>

definition drop_uncertain_models :: "session_id \<Rightarrow> server \<Rightarrow> server" where
  "drop_uncertain_models sess srv = srv\<lparr>uncertain_models := (uncertain_models srv)(sess := False)\<rparr>"

text \<open>Modelled from the spec: \<open>set_uncertain_models\<close> (re)establishes the uncertainty
  workers of the session.\<close>

definition set_uncertain_models :: "session_id \<Rightarrow> server \<Rightarrow> server" where
  "set_uncertain_models sess srv = srv\<lparr>uncertain_models := (uncertain_models srv)(sess := True)\<rparr>"

text \<open>\<open>get_uncertain_steps\<close> (lines 387 to 392); \<open>workers\<close> is what the workers' \<open>step\<close> command
  returns in this iteration.\<close>

definition get_uncertain_steps :: "session_id \<Rightarrow> step_output list \<Rightarrow> server \<Rightarrow> step_output list option" where
  "get_uncertain_steps sess workers srv =
     (if uncertain_models srv sess then Some workers else None)"

text \<open>
  Modelled from the spec: \<open>json_exception\<close> is not in the source; the message it reports is
  the failure's original message.
\<close>

fun json_exception_message :: "exn \<Rightarrow> string" where
  "json_exception_message StopIteration = ''StopIteration''"
| "json_exception_message (KeyError k) = ''KeyError: '' @ k"
| "json_exception_message TypeError = ''TypeError''"
| "json_exception_message ValueError = ''ValueError''"
| "json_exception_message IndexError = ''IndexError''"
| "json_exception_message AttributeError = ''AttributeError''"
| "json_exception_message (FileNotFoundError p) = ''FileNotFoundError: '' @ p"
| "json_exception_message (OtherError msg) = msg"

section \<open>The environment of a run\<close>

text \<open>
  What happens while the task is suspended (in a gate wait or in \<open>gevent.sleep\<close>): other
  handlers may write the session (\<open>ext_writes\<close>, assignments in order), and the client may
  set the gate (\<open>Ack\<close>), do nothing until the timeout (\<open>Idle\<close>), or another handler may kill
  the task without blocking (\<open>Kill\<close>).
\<close>

datatype ext = Ack | Idle | Kill

record suspension =
  ext_action :: ext
  ext_writes :: session

text \<open>
  One pass of the \<open>while True\<close> loop as the environment sees it: what
  \<open>active_model.step()\<close> does, what the workers return, the three clock readings, and the
  two suspension points. A model out of steps raises \<open>StopIteration\<close>: the run's
  environment lists the steps the model still has.
\<close>

record iteration =
  it_step :: "exn + (string, block) dict"
  it_workers :: "step_output list"
  it_begin :: real
  it_begin_uncertain :: real
  it_end :: real
  at_wait :: suspension
  at_sleep :: suspension

record env =
  at_start :: suspension
  iterations :: "iteration list"

definition external :: "sid \<Rightarrow> nat \<Rightarrow> suspension \<Rightarrow> server \<Rightarrow> server" where
  "external sockid gid sus srv =
     (let s = fold (\<lambda>kv d. dict_set d (fst kv) (snd kv)) (ext_writes sus) (sessions srv sockid);
          srv1 = save_session sockid s srv
      in case ext_action sus of
           Ack \<Rightarrow> srv1\<lparr>gates := (gates srv1)(sockid := True)\<rparr>
         | Idle \<Rightarrow> srv1
         | Kill \<Rightarrow> kill_nonblocking gid srv1)"

definition kill_due :: "nat \<Rightarrow> server \<Rightarrow> bool" where
  "kill_due gid srv = (gid < length (greenlets srv) \<and> kill_pending (greenlets srv ! gid))"

text \<open>
  \<open>Event.wait(timeout)\<close>: a set gate returns \<open>True\<close> at once. Otherwise the task is suspended;
  a kill that is due raises \<open>GreenletExit\<close> there, and the call returns whether the gate was
  set before the timeout.
\<close>

definition gate_wait :: "sid \<Rightarrow> nat \<Rightarrow> suspension \<Rightarrow> server \<Rightarrow> (raised + bool) \<times> server" where
  "gate_wait sockid gid sus srv =
     (if gates srv sockid then (Inr True, srv)
      else
        (let srv1 = external sockid gid sus srv in
         if kill_due gid srv1 then (Inl GreenletExit, srv1)
         else (Inr (gates srv1 sockid), srv1)))"

definition gevent_sleep :: "sid \<Rightarrow> nat \<Rightarrow> suspension \<Rightarrow> server \<Rightarrow> raised option \<times> server" where
  "gevent_sleep sockid gid sus srv =
     (let srv1 = external sockid gid sus srv in
      if kill_due gid srv1 then (Some GreenletExit, srv1) else (None, srv1))"

text \<open>The truth value of a gevent \<open>Event\<close> object: the class defines neither \<open>__bool__\<close> nor
  \<open>__len__\<close>, so the object is true whatever its flag.\<close>

definition event_truthy :: "bool \<Rightarrow> bool" where
  "event_truthy flag = True"

text \<open>\<open>sock_session['lock']\<close>, on which \<open>wait\<close> or \<open>clear\<close> is then called.\<close>

definition lock_of :: "session \<Rightarrow> exn + unit" where
  "lock_of s =
     (case map_of s ''lock'' of
        None \<Rightarrow> Inl (KeyError ''lock'')
      | Some SLock \<Rightarrow> Inr ()
      | Some _ \<Rightarrow> Inl AttributeError)"

section \<open>The step task (execute_async_model, lines 217 to 385)\<close>

text \<open>
  \<open>with socket_namespace.session(sockid) as sock_session\<close> is python-socketio's context
  manager: \<open>get_session\<close> on entry and \<open>save_session\<close> of the same dictionary on exit, also
  when the block raises. \<open>get_session\<close> returns a clone of the session (comment at line
  231). The blocks of the task never assign to the dictionary, so each block saves the
  session it read on entry.
\<close>

text \<open>Lines 233 to 241: the start barrier.\<close>

definition await_start :: "sid \<Rightarrow> nat \<Rightarrow> suspension \<Rightarrow> server \<Rightarrow> raised option \<times> server" where
  "await_start sockid gid sus srv =
     (let srv1 = emit ''prepared'' NoPayload (Some sockid) srv;
          sock_session = sessions srv1 sockid
      in case lock_of sock_session of
           Inl e \<Rightarrow> (Some (Exc e), save_session sockid sock_session srv1)
         | Inr _ \<Rightarrow>
             (case gate_wait sockid gid sus srv1 of
                (Inl r, srv2) \<Rightarrow> (Some r, save_session sockid sock_session srv2)
              | (Inr unlocked, srv2) \<Rightarrow>
                  (let srv3 =
                     (if \<not> unlocked
                      then on_model_kill sockid
                             (emit ''timeout'' (Msg ''Model not started, timed out after 16 sec'')
                                (Some sockid) srv2)
                      else srv2)
                   in (None, save_session sockid sock_session srv3))))"

text \<open>Lines 247 to 256: on the first step the uncertainty workers are re-established.\<close>

definition first_step_setup :: "session_id \<Rightarrow> model \<Rightarrow> server \<Rightarrow> server" where
  "first_step_setup sess m srv =
     (if current_time_step m = - 1
      then (let srv1 = drop_uncertain_models sess srv in
            if has_weathering_uncertainty m then set_uncertain_models sess srv1 else srv1)
      else srv)"

text \<open>
  Lines 245 to 328, the inner \<open>try\<close>: \<open>Break\<close> is the \<open>StopIteration\<close> handler (the workers are
  dropped and the loop is left), \<open>Fail\<close> any other exception, re-raised, and \<open>Out\<close> the
  step record.
\<close>

datatype stepped = Break server | Fail exn server | Out step_record server

definition handle_step_exn :: "session_id \<Rightarrow> exn \<Rightarrow> server \<Rightarrow> stepped" where
  "handle_step_exn sess e srv =
     (if e = StopIteration then Break (drop_uncertain_models sess srv) else Fail e srv)"

definition model_step :: "session_id \<Rightarrow> iteration option \<Rightarrow> server \<Rightarrow> stepped" where
  "model_step sess it srv =
     (case models srv sess of
        None \<Rightarrow> handle_step_exn sess AttributeError srv
      | Some m \<Rightarrow>
          (let srv1 = first_step_setup sess m srv in
           case it of
             None \<Rightarrow> handle_step_exn sess StopIteration srv1
           | Some i \<Rightarrow>
               (case it_step i of
                  Inl e \<Rightarrow> handle_step_exn sess e srv1
                | Inr raw \<Rightarrow>
                    (let srv2 = update_model sess
                                  (\<lambda>m. m\<lparr>current_time_step := current_time_step m + 1\<rparr>) srv1;
                         steps = get_uncertain_steps sess (it_workers i) srv2
                     in case aggregate_step (it_begin i) (it_begin_uncertain i) (it_end i) steps raw of
                          Inl e \<Rightarrow> handle_step_exn sess e srv2
                        | Inr output \<Rightarrow> Out output srv2))))"

text \<open>Line 330: \<open>sock_session_copy['num_sent'] += 1\<close>.\<close>

definition incr_num_sent :: "session \<Rightarrow> exn + (session \<times> int)" where
  "incr_num_sent copy =
     (case map_of copy ''num_sent'' of
        None \<Rightarrow> Inl (KeyError ''num_sent'')
      | Some (SInt n) \<Rightarrow> Inr (dict_set copy ''num_sent'' (SInt (n + 1)), n + 1)
      | Some _ \<Rightarrow> Inl TypeError)"

text \<open>Lines 332 to 335: the full record to the session's room, or the counter alone.\<close>

definition emit_step :: "sid \<Rightarrow> bool \<Rightarrow> step_record \<Rightarrow> int \<Rightarrow> server \<Rightarrow> server" where
  "emit_step sockid send_output output n srv =
     (if output \<noteq> [] \<and> send_output
      then emit ''step'' (Rec output) (Some sockid) srv
      else emit ''step'' (Count n) None srv)"

text \<open>Lines 337 to 340: outside free-run mode the gate is cleared after each step.\<close>

definition clear_gate :: "sid \<Rightarrow> server \<Rightarrow> raised option \<times> server" where
  "clear_gate sockid srv =
     (if \<not> is_async srv then
        (let sock_session = sessions srv sockid in
         case lock_of sock_session of
           Inl e \<Rightarrow> (Some (Exc e), save_session sockid sock_session srv)
         | Inr _ \<Rightarrow>
             (None, save_session sockid sock_session (srv\<lparr>gates := (gates srv)(sockid := False)\<rparr>)))
      else (None, srv))"

text \<open>
  Lines 342 to 354. The value \<open>wait\<close> returns is dropped (line 345); \<open>unlocked\<close> is the
  \<open>Event\<close> object itself (line 347).
\<close>

definition await_next :: "sid \<Rightarrow> nat \<Rightarrow> iteration \<Rightarrow> server \<Rightarrow> raised option \<times> server" where
  "await_next sockid gid it srv =
     (let sock_session = sessions srv sockid in
      case lock_of sock_session of
        Inl e \<Rightarrow> (Some (Exc e), save_session sockid sock_session srv)
      | Inr _ \<Rightarrow>
          (case gate_wait sockid gid (at_wait it) srv of
             (Inl r, srv1) \<Rightarrow> (Some r, save_session sockid sock_session srv1)
           | (Inr _, srv1) \<Rightarrow>
               (let unlocked = event_truthy (gates srv1 sockid);
                    srv2 =
                      (if \<not> unlocked
                       then on_model_kill sockid
                              (emit ''timeout'' (Msg ''Model run timed out after 6000 sec'')
                                 (Some sockid) srv1)
                       else srv1)
                in gevent_sleep sockid gid (at_sleep it) (save_session sockid sock_session srv2))))"

text \<open>
  The \<open>while True\<close> loop (lines 244 to 354). It returns the exception that left the loop, if
  any, with the session copy and the server state at that point.
\<close>

fun run_loop ::
  "session_id \<Rightarrow> sid \<Rightarrow> nat \<Rightarrow> bool \<Rightarrow> iteration list \<Rightarrow> session \<Rightarrow> server
     \<Rightarrow> raised option \<times> session \<times> server" where
  "run_loop sess sockid gid send_output [] copy srv =
     (case model_step sess None srv of
        Break srv1 \<Rightarrow> (None, copy, srv1)
      | Fail e srv1 \<Rightarrow> (Some (Exc e), copy, srv1)
      | Out output srv1 \<Rightarrow> (None, copy, srv1))"
| "run_loop sess sockid gid send_output (it # its) copy srv =
     (case model_step sess (Some it) srv of
        Break srv1 \<Rightarrow> (None, copy, srv1)
      | Fail e srv1 \<Rightarrow> (Some (Exc e), copy, srv1)
      | Out output srv1 \<Rightarrow>
          (case incr_num_sent copy of
             Inl e \<Rightarrow> (Some (Exc e), copy, srv1)
           | Inr (copy1, n) \<Rightarrow>
               (case clear_gate sockid (emit_step sockid send_output output n srv1) of
                  (Some r, srv2) \<Rightarrow> (Some r, copy1, srv2)
                | (None, srv2) \<Rightarrow>
                    (case await_next sockid gid it srv2 of
                       (Some r, srv3) \<Rightarrow> (Some r, copy1, srv3)
                     | (None, srv3) \<Rightarrow> run_loop sess sockid gid send_output its copy1 srv3))))"

text \<open>
  The \<open>finally\<close> clause (lines 378 to 383): the live session is compared with the copy key
  by key, reading \<open>sock_session_copy[k]\<close> for every key of the live session, and then
  the copy is saved.
\<close>

definition finally_block :: "sid \<Rightarrow> session \<Rightarrow> server \<Rightarrow> exn option \<times> server" where
  "finally_block sockid copy srv =
     (let sock_session = sessions srv sockid in
      case find (\<lambda>k. \<not> dict_in k copy) (map fst sock_session) of
        Some k \<Rightarrow> (Some (KeyError k), save_session sockid sock_session srv)
      | None \<Rightarrow> (None, save_session sockid copy (save_session sockid sock_session srv)))"

text \<open>The two outer handlers (lines 355 to 376); both re-raise.\<close>

definition report :: "sid \<Rightarrow> raised option \<Rightarrow> server \<Rightarrow> server" where
  "report sockid r srv =
     (case r of
        None \<Rightarrow> srv
      | Some GreenletExit \<Rightarrow> emit ''killed'' (Msg ''Model run terminated early'') (Some sockid) srv
      | Some (Exc e) \<Rightarrow> emit ''runtimeError'' (Msg (json_exception_message e)) (Some sockid) srv)"

text \<open>
  Lines 355 to 385, from the point where the \<open>try\<close> body is left with \<open>r\<close>: the handler, the
  \<open>finally\<close> clause (an exception raised there replaces the one in flight) and, after a
  normal exit, the \<open>complete\<close> event.
\<close>

definition unwind :: "sid \<Rightarrow> raised option \<times> session \<times> server \<Rightarrow> outcome \<times> server" where
  "unwind sockid body =
     (case body of
        (r, copy, srv) \<Rightarrow>
          (case finally_block sockid copy (report sockid r srv) of
             (Some k, srv1) \<Rightarrow> (Raised (Exc k), srv1)
           | (None, srv1) \<Rightarrow>
               (case r of
                  Some x \<Rightarrow> (Raised x, srv1)
                | None \<Rightarrow> (Returned, emit ''complete'' (Msg ''Model run completed'') None srv1))))"

definition execute_async_model ::
  "session_id \<Rightarrow> sid \<Rightarrow> nat \<Rightarrow> bool \<Rightarrow> env \<Rightarrow> server \<Rightarrow> outcome \<times> server" where
  "execute_async_model sess sockid gid send_output e srv =
     (let sock_session_copy = sessions srv sockid in
      unwind sockid
        (case await_start sockid gid (at_start e) srv of
           (Some r, srv1) \<Rightarrow> (Some r, sock_session_copy, srv1)
         | (None, srv1) \<Rightarrow>
             run_loop sess sockid gid send_output (iterations e) sock_session_copy srv1))"

section \<open>Run requests (run_model, run_export_model)\<close>

record request =
  req_session :: session_id
  req_dir :: string
  req_outputters :: "outputter list"
  req_model_name :: string
  req_tmpdir :: string

text \<open>
  The truth value of \<open>ns.active_greenlets.get(sid)\<close>: \<open>None\<close> is false, and a gevent greenlet
  is true while it is started and not yet dead.
\<close>

definition slot_active :: "sid \<Rightarrow> server \<Rightarrow> bool" where
  "slot_active sockid srv =
     (case active_greenlets srv sockid of
        None \<Rightarrow> False
      | Some g \<Rightarrow> g < length (greenlets srv) \<and> alive (greenlets srv ! g))"

text \<open>\<open>gevent.spawn\<close> and the assignment to the session's slot; the callbacks are linked
  right after.\<close>

definition spawn :: "sid \<Rightarrow> session_id \<Rightarrow> link list \<Rightarrow> server \<Rightarrow> server" where
  "spawn sockid sess ls srv =
     srv\<lparr>active_greenlets := (active_greenlets srv)(sockid \<mapsto> length (greenlets srv)),
         greenlets := greenlets srv @
           [\<lparr>gl_sockid = sockid, gl_session = sess, alive = True, kill_pending = False,
             links = ls\<rparr>]\<rparr>"

text \<open>Lines 201 to 214 and 162 to 176: the counter is reset, and a task is spawned when
  there is an active model and the session's slot is false.\<close>

definition start_task :: "sid \<Rightarrow> session_id \<Rightarrow> link list \<Rightarrow> server \<Rightarrow> server" where
  "start_task sockid sess ls srv =
     (let sock_session = dict_set (sessions srv sockid) ''num_sent'' (SInt 0);
          srv1 =
            (if models srv sess \<noteq> None \<and> \<not> slot_active sockid srv
             then spawn sockid sess ls srv
             else srv)
      in save_session sockid sock_session srv1)"

definition run_model :: "request \<Rightarrow> server \<Rightarrow> exn option \<times> server" where
  "run_model req srv =
     (if \<not> sio_ns srv then (Some ValueError, srv)
      else
        (case sockid_of srv (req_session req) of
           None \<Rightarrow> (Some ValueError, srv)
         | Some sockid \<Rightarrow> (None, start_task sockid (req_session req) [] srv)))"

text \<open>\<open>os.path.join\<close> of two parts and \<open>os.path.basename\<close>, as in \<open>posixpath\<close>.\<close>

definition os_path_join :: "string \<Rightarrow> string \<Rightarrow> string" where
  "os_path_join a b =
     (if b \<noteq> [] \<and> hd b = CHR ''/'' then b
      else if a = [] \<or> last a = CHR ''/'' then a @ b
      else a @ ''/'' @ b)"

definition os_path_basename :: "string \<Rightarrow> string" where
  "os_path_basename p = rev (takeWhile (\<lambda>c. c \<noteq> CHR ''/'') (rev p))"

text \<open>Lines 100 to 104: every requested outputter gets its file under the scratch
  directory.\<close>

definition temporary_outputters :: "request \<Rightarrow> outputter list" where
  "temporary_outputters req =
     map (\<lambda>itm. itm\<lparr>filename := os_path_join (req_tmpdir req) (filename itm)\<rparr>) (req_outputters req)"

text \<open>Lines 105 to 110: \<open>active_model.outputters += o\<close>; without a model the first one raises.\<close>

definition attach :: "session_id \<Rightarrow> outputter list \<Rightarrow> server \<Rightarrow> exn option \<times> server" where
  "attach sess temps srv =
     (case models srv sess of
        None \<Rightarrow> (if temps = [] then None else Some AttributeError, srv)
      | Some m \<Rightarrow> (None, update_model sess (\<lambda>m. m\<lparr>outputters := outputters m @ temps\<rparr>) srv))"

definition run_export_model :: "request \<Rightarrow> server \<Rightarrow> exn option \<times> server" where
  "run_export_model req srv =
     (if \<not> sio_ns srv then (Some ValueError, srv)
      else
        (let temps = temporary_outputters req in
         case attach (req_session req) temps srv of
           (Some e, srv1) \<Rightarrow> (Some e, srv1)
         | (None, srv1) \<Rightarrow>
             (case sockid_of srv1 (req_session req) of
                None \<Rightarrow> (Some ValueError, srv1)
              | Some sockid \<Rightarrow>
                  (None,
                   start_task sockid (req_session req)
                     [ExportCleanup temps (req_model_name req) (req_dir req) sockid (req_session req)]
                     srv1))))"

section \<open>The export cleanup (lines 114 to 158)\<close>

text \<open>\<open>active_model.outputters.remove(m.id)\<close>: the collection raises \<open>KeyError\<close> for an id it
  does not hold.\<close>

fun remove_id :: "string \<Rightarrow> outputter list \<Rightarrow> exn + outputter list" where
  "remove_id i [] = Inl (KeyError i)"
| "remove_id i (x # xs) =
     (if o_id x = i then Inr xs
      else (case remove_id i xs of Inl e \<Rightarrow> Inl e | Inr ys \<Rightarrow> Inr (x # ys)))"

text \<open>Lines 119 to 121. The removals made before a failing one stay made.\<close>

fun detach :: "outputter list \<Rightarrow> outputter list \<Rightarrow> exn option \<times> outputter list" where
  "detach [] outs = (None, outs)"
| "detach (m # ms) outs =
     (case remove_id (o_id m) outs of
        Inl e \<Rightarrow> (Some e, outs)
      | Inr outs1 \<Rightarrow> detach ms outs1)"

text \<open>Modelled from the spec: \<open>rewind\<close> belongs to the model; its time step is \<open>-1\<close> before
  the first step.\<close>

definition rewind :: "model \<Rightarrow> model" where
  "rewind m = m\<lparr>current_time_step := - 1\<rparr>"

text \<open>Lines 138 and 139, 144 and 145: the outputter's file, or the path with \<open>.zip\<close>
  appended when that file does not exist.\<close>

definition probe :: "(string \<rightharpoonup> content) \<Rightarrow> string \<Rightarrow> string" where
  "probe fs obj_fn = (if fs obj_fn = None then obj_fn @ ''.zip'' else obj_fn)"

text \<open>\<open>zipfile_.write(obj_fn, os.path.basename(obj_fn))\<close> into the archive at \<open>zpath\<close>.\<close>

definition zip_write :: "string \<Rightarrow> string \<Rightarrow> (string \<rightharpoonup> content) \<Rightarrow> exn + (string \<rightharpoonup> content)" where
  "zip_write zpath obj_fn fs =
     (case fs obj_fn of
        None \<Rightarrow> Inl (FileNotFoundError obj_fn)
      | Some c \<Rightarrow>
          Inr (fs(zpath \<mapsto>
                 Zip ((case fs zpath of Some (Zip es) \<Rightarrow> es | _ \<Rightarrow> []) @
                      [(os_path_basename obj_fn, c)]))))"

text \<open>Lines 136 to 140.\<close>

fun zip_all :: "string \<Rightarrow> outputter list \<Rightarrow> (string \<rightharpoonup> content) \<Rightarrow> exn option \<times> (string \<rightharpoonup> content)" where
  "zip_all zpath [] fs = (None, fs)"
| "zip_all zpath (m # ms) fs =
     (case zip_write zpath (probe fs (filename m)) fs of
        Inl e \<Rightarrow> (Some e, fs)
      | Inr fs1 \<Rightarrow> zip_all zpath ms fs1)"

text \<open>\<open>shutil.move(src, dst)\<close> of a file onto a file path.\<close>

definition shutil_move :: "string \<Rightarrow> string \<Rightarrow> (string \<rightharpoonup> content) \<Rightarrow> exn + (string \<rightharpoonup> content)" where
  "shutil_move src dst fs =
     (case fs src of
        None \<Rightarrow> Inl (FileNotFoundError src)
      | Some c \<Rightarrow> Inr (if src = dst then fs else (fs(src := None))(dst \<mapsto> c)))"

text \<open>Lines 131 to 150: the artifact and its name, after a run that ended cleanly.\<close>

definition assemble ::
  "outputter list \<Rightarrow> string \<Rightarrow> string \<Rightarrow> (string \<rightharpoonup> content) \<Rightarrow> (exn + string) \<times> (string \<rightharpoonup> content)" where
  "assemble temps model_filename session_path fs =
     (if length temps > 1 then
        (let end_filename = model_filename @ ''_output.zip'';
             zpath = os_path_join session_path end_filename
         in case zip_all zpath temps (fs(zpath \<mapsto> Zip [])) of
              (Some e, fs1) \<Rightarrow> (Inl e, fs1)
            | (None, fs1) \<Rightarrow> (Inr end_filename, fs1))
      else
        (case temps of
           [] \<Rightarrow> (Inl IndexError, fs)
         | m # _ \<Rightarrow>
             (let obj_fn = probe fs (filename m);
                  end_filename = os_path_basename obj_fn
              in case shutil_move obj_fn (os_path_join session_path end_filename) fs of
                   Inl e \<Rightarrow> (Inl e, fs)
                 | Inr fs1 \<Rightarrow> (Inr end_filename, fs1))))"

text \<open>
  \<open>cleanup(grn)\<close>. A greenlet that raised has \<open>grn.exception\<close> set; one that was killed has
  the \<open>GreenletExit\<close> instance as its value. Whatever the cleanup raises is re-raised
  (line 157).
\<close>

definition cleanup ::
  "outputter list \<Rightarrow> string \<Rightarrow> string \<Rightarrow> sid \<Rightarrow> session_id \<Rightarrow> outcome \<Rightarrow> server
     \<Rightarrow> exn option \<times> server" where
  "cleanup temps model_filename session_path sockid sess grn srv =
     (case models srv sess of
        None \<Rightarrow> (Some AttributeError, srv)
      | Some m \<Rightarrow>
          (case detach temps (outputters m) of
             (Some e, outs) \<Rightarrow> (Some e, update_model sess (\<lambda>m. m\<lparr>outputters := outs\<rparr>) srv)
           | (None, outs) \<Rightarrow>
               (let srv1 = update_model sess (\<lambda>m. rewind (m\<lparr>outputters := outs\<rparr>)) srv in
                case grn of
                  Raised _ \<Rightarrow> (None, emit ''export_failed'' NoPayload (Some sockid) srv1)
                | Returned \<Rightarrow>
                    (case assemble temps model_filename session_path (files srv1) of
                       (Inl e, fs) \<Rightarrow> (Some e, srv1\<lparr>files := fs\<rparr>)
                     | (Inr end_filename, fs) \<Rightarrow>
                         (None,
                          emit ''export_finished'' (Msg end_filename) (Some sockid)
                            (srv1\<lparr>files := fs\<rparr>))))))"

section \<open>The life of a greenlet\<close>

fun run_link :: "link \<Rightarrow> outcome \<Rightarrow> server \<Rightarrow> exn option \<times> server" where
  "run_link (ExportCleanup temps model_filename session_path sockid sess) grn srv =
     cleanup temps model_filename session_path sockid sess grn srv"

text \<open>gevent calls every linked callback once when the greenlet is dead; what a callback
  raises is reported to the hub and does not stop the others.\<close>

fun run_links :: "link list \<Rightarrow> outcome \<Rightarrow> server \<Rightarrow> server" where
  "run_links [] grn srv = srv"
| "run_links (l # ls) grn srv = run_links ls grn (snd (run_link l grn srv))"

text \<open>
  A spawned greenlet from its start to its death. Spawned by the run requests, it runs
  \<open>execute_async_model\<close> with \<open>send_output\<close> at its default. A greenlet killed before it
  started never runs its function and ends with \<open>GreenletExit\<close>.
\<close>

definition run_greenlet :: "nat \<Rightarrow> env \<Rightarrow> server \<Rightarrow> outcome option \<times> server" where
  "run_greenlet gid e srv =
     (if gid < length (greenlets srv) \<and> alive (greenlets srv ! gid) then
        (let g = greenlets srv ! gid in
         case (if kill_pending g then (Raised GreenletExit, srv)
               else execute_async_model (gl_session g) (gl_sockid g) gid True e srv) of
           (grn, srv1) \<Rightarrow>
             (Some grn,
              run_links (links g) grn
                (srv1\<lparr>greenlets := (greenlets srv1)[gid := (greenlets srv1 ! gid)\<lparr>alive := False\<rparr>]\<rparr>)))
      else (None, srv))"

section \<open>Rewind (get_rewind, lines 394 to 423)\<close>




section \<open>Histories of a server\<close>



section \<open>A concrete session\<close>

text \<open>
  One connected session with an active model and no task: socket \<open>sock\<close> of session \<open>sess\<close>,
  its gate clear, step-by-step mode. It is the starting point of the concrete runs below.
\<close>

definition example_model :: model where
  "example_model = \<lparr>current_time_step = - 1, has_weathering_uncertainty = False, outputters = []\<rparr>"

definition example_server :: server where
  "example_server =
     \<lparr>sio_ns = True,
      sessions = (\<lambda>_. [(''lock'', SLock), (''num_sent'', SInt 0)]),
      gates = (\<lambda>_. False),
      active_greenlets = Map.empty,
      greenlets = [],
      models = [''sess'' \<mapsto> example_model],
      uncertain_models = (\<lambda>_. False),
      sockid_of = [''sess'' \<mapsto> ''sock''],
      is_async = False,
      session_locked = (\<lambda>_. False),
      files = Map.empty,
      events = []\<rparr>"

definition example_request :: request where
  "example_request =
     \<lparr>req_session = ''sess'', req_dir = ''/data/sess'', req_outputters = [],
      req_model_name = ''run'', req_tmpdir = ''/tmp/export''\<rparr>"

definition idle :: suspension where
  "idle = \<lparr>ext_action = Idle, ext_writes = []\<rparr>"

definition ack :: suspension where
  "ack = \<lparr>ext_action = Ack, ext_writes = []\<rparr>"

text \<open>A step whose record has one block \<open>Trajectory\<close>, with the given suspension points.\<close>

definition example_step :: "suspension \<Rightarrow> suspension \<Rightarrow> iteration" where
  "example_step w z =
     \<lparr>it_step = Inr [(''Trajectory'', [(''n'', PInt 1)])], it_workers = [],
      it_begin = 0, it_begin_uncertain = 1, it_end = 2, at_wait = w, at_sleep = z\<rparr>"

text \<open>An export of two outputters into the scratch directory \<open>/tmp/export\<close>. The first wrote
  its file \<open>a.out\<close>; the second, a shapefile outputter, wrote \<open>shape.zip\<close> instead of
  \<open>shape\<close>.\<close>

definition export_request :: request where
  "export_request =
     example_request\<lparr>req_outputters :=
       [\<lparr>o_id = ''o1'', filename = ''a.out''\<rparr>, \<lparr>o_id = ''o2'', filename = ''shape''\<rparr>]\<rparr>"

definition scratch_files :: "string \<rightharpoonup> content" where
  "scratch_files = [''/tmp/export/a.out'' \<mapsto> Data ''A'', ''/tmp/export/shape.zip'' \<mapsto> Data ''S'']"

definition export_server :: server where
  "export_server = (snd (run_export_model export_request example_server))\<lparr>files := scratch_files\<rparr>"

section \<open>Notions used to state the properties\<close>









text \<open>What a task never changes: the registry, which greenlets there are and whether
  they live, the files, the outputters of the models and the routing. It only adds events
  with the task's six names.\<close>

definition static :: "greenlet \<Rightarrow> sid \<times> session_id \<times> bool \<times> link list" where
  "static g = (gl_sockid g, gl_session g, alive g, links g)"

definition task_event :: "event \<Rightarrow> bool" where
  "task_event ev =
     (fst ev \<in> {''prepared'', ''timeout'', ''killed'', ''step'', ''complete'', ''runtimeError''})"

definition task_frame :: "server \<Rightarrow> server \<Rightarrow> bool" where
  "task_frame srv srv' =
     (active_greenlets srv' = active_greenlets srv \<and>
      map static (greenlets srv') = map static (greenlets srv) \<and>
      files srv' = files srv \<and>
      sockid_of srv' = sockid_of srv \<and>
      sio_ns srv' = sio_ns srv \<and>
      session_locked srv' = session_locked srv \<and>
      (\<forall>sess. map_option outputters (models srv' sess) = map_option outputters (models srv sess)) \<and>
      (\<exists>new. events srv' = events srv @ new \<and> list_all task_event new))"

text \<open>The server state in which the inner \<open>try\<close> of a pass ends.\<close>

fun server_of :: "stepped \<Rightarrow> server" where
  "server_of (Break srv) = srv"
| "server_of (Fail e srv) = srv"
| "server_of (Out output srv) = srv"


text \<open>The environment of a run stores no new key in the session: every write made while
  the task is suspended assigns a key that the session \<open>s\<close> already has.\<close>

definition known_writes :: "session \<Rightarrow> suspension \<Rightarrow> bool" where
  "known_writes s sus = list_all (\<lambda>kv. dict_in (fst kv) s) (ext_writes sus)"

definition no_new_keys :: "session \<Rightarrow> env \<Rightarrow> bool" where
  "no_new_keys s e =
     (known_writes s (at_start e) \<and>
      list_all (\<lambda>it. known_writes s (at_wait it) \<and> known_writes s (at_sleep it)) (iterations e))"

text \<open>The number of \<open>step\<close> events among the events emitted after the first \<open>n\<close>.\<close>

definition steps_sent :: "nat \<Rightarrow> event list \<Rightarrow> nat" where
  "steps_sent n evs = length (filter (\<lambda>ev. fst ev = ''step'') (drop n evs))"

section \<open>Properties of the aggregation\<close>








lemma map_of_dict_set: "map_of (dict_set d k v) k' = (if k' = k then Some v else map_of d k')"
  by (simp add: dict_set_def update_conv')














section \<open>Evaluation of concrete runs\<close>

lemmas task_defs =
  run_greenlet_def run_model_def start_task_def slot_active_def spawn_def save_session_def
  dict_set_def execute_async_model_def await_start_def emit_def lock_of_def gate_wait_def
  external_def kill_due_def model_step_def first_step_setup_def update_model_def
  get_uncertain_steps_def aggregate_step_def dict_in_def dict_item_def incr_num_sent_def
  emit_step_def clear_gate_def await_next_def event_truthy_def gevent_sleep_def
  handle_step_exn_def drop_uncertain_models_def set_uncertain_models_def unwind_def report_def
  finally_block_def kill_nonblocking_def on_model_kill_def attach_metrics_def Let_def

lemmas example_defs =
  example_request_def example_server_def example_model_def example_step_def ack_def idle_def

section \<open>Response-time metrics\<close>

text \<open>
  Claim C9 as stated fails: with no uncertainty workers (\<open>get_uncertain_steps\<close> returned
  \<open>None\<close>) and a nominal record that has the \<open>WeatheringOutput\<close> block, the step record
  carries both response-time metrics (lines 301 to 310).
\<close>

theorem metrics_without_workers:
  "\<exists>out. aggregate_step 0 1 3 None [(''WeatheringOutput'', [(''time_stamp'', PStr ''t0'')])] = Inr out \<and>
         map_of out ''uncertain_response_time'' = Some (Metric 2) \<and>
         map_of out ''total_response_time'' = Some (Metric 3)"
  by (simp add: aggregate_step_def dict_in_def dict_item_def attach_metrics_def dict_set_def)

lemma map_of_blocks: "map_of (map (\<lambda>(k, b). (k, Block b)) raw) k = map_option Block (map_of raw k)"
  by (induction raw) auto

text \<open>
  Claim C9, amended. Whenever the step record is produced, the two response-time metrics
  are attached exactly when the nominal record has the \<open>WeatheringOutput\<close> block, with or
  without uncertainty workers: \<open>uncertain_response_time\<close> is \<open>end - begin_uncertain\<close> and
  \<open>total_response_time\<close> is \<open>end - begin\<close>. Without the block the record is the model's
  output as it is and carries no metric, whatever the workers returned.
\<close>

theorem metrics_iff_weathering_block:
  assumes "aggregate_step t0 t1 t2 steps raw = Inr out"
  shows "if dict_in ''WeatheringOutput'' raw
         then map_of out ''uncertain_response_time'' = Some (Metric (t2 - t1)) \<and>
              map_of out ''total_response_time'' = Some (Metric (t2 - t0))
         else out = map (\<lambda>(k, b). (k, Block b)) raw \<and>
              (\<forall>k t. map_of out k \<noteq> Some (Metric t))"
proof (cases "dict_in ''WeatheringOutput'' raw")
  case True
  with assms obtain fo where "out = attach_metrics t0 t1 t2 (map (\<lambda>(k, b). (k, Block b)) raw) fo"
    by (auto simp: aggregate_step_def Let_def split: sum.splits prod.splits if_splits)
  with True show ?thesis by (simp add: attach_metrics_def map_of_dict_set)
next
  case False
  with assms have "out = map (\<lambda>(k, b). (k, Block b)) raw"
    by (auto simp: aggregate_step_def Let_def split: sum.splits prod.splits if_splits)
  with False show ?thesis by (auto simp: map_of_blocks)
qed

text \<open>
  The amended claim at the input of the counterexample.
\<close>

theorem metrics_iff_weathering_block_witness:
  "aggregate_step 0 1 3 None [(''WeatheringOutput'', [(''time_stamp'', PStr ''t0'')])] =
     Inr [(''WeatheringOutput'',
           Full [(SKey ''time_stamp'', FVal (PStr ''t0'')),
                 (SKey ''nominal'', FBlock [(''time_stamp'', PStr ''t0'')]),
                 (SKey ''low'', FNone), (SKey ''high'', FNone)]),
          (''uncertain_response_time'', Metric 2), (''total_response_time'', Metric 3)] \<and>
   map_of [(''WeatheringOutput'',
           Full [(SKey ''time_stamp'', FVal (PStr ''t0'')),
                 (SKey ''nominal'', FBlock [(''time_stamp'', PStr ''t0'')]),
                 (SKey ''low'', FNone), (SKey ''high'', FNone)]),
          (''uncertain_response_time'', Metric 2), (''total_response_time'', Metric (3::real))]
      ''total_response_time'' = Some (Metric (3 - 0))"
proof -
  have run: "aggregate_step 0 1 3 None [(''WeatheringOutput'', [(''time_stamp'', PStr ''t0'')])] =
     Inr [(''WeatheringOutput'',
           Full [(SKey ''time_stamp'', FVal (PStr ''t0'')),
                 (SKey ''nominal'', FBlock [(''time_stamp'', PStr ''t0'')]),
                 (SKey ''low'', FNone), (SKey ''high'', FNone)]),
          (''uncertain_response_time'', Metric 2), (''total_response_time'', Metric 3)]"
    by (simp add: aggregate_step_def dict_in_def dict_item_def attach_metrics_def dict_set_def)
  from metrics_iff_weathering_block[OF run] run show ?thesis
    by (simp add: dict_in_def)
qed

section \<open>Worker failures\<close>

text \<open>
  Claim C3 as stated fails: the workers' results are only inspected under the guard of
  line 266. When the nominal record has no \<open>WeatheringOutput\<close> block, a result that encodes
  a failure raises nothing and the step record is produced. In the run below the model has
  weathering uncertainty, so workers are present, and the only worker fails in the only
  step: the step is emitted, no \<open>runtimeError\<close> is, and the task completes.
\<close>

theorem worker_failure_dropped:
  "aggregate_step 0 1 2 (Some [ExcTuple (OtherError ''boom'')]) [(''Trajectory'', [(''n'', PInt 1)])] =
     Inr [(''Trajectory'', Block [(''n'', PInt 1)])] \<and>
   get_uncertain_steps ''sess'' [ExcTuple (OtherError ''boom'')]
     (first_step_setup ''sess'' (example_model\<lparr>has_weathering_uncertainty := True\<rparr>)
        (example_server\<lparr>models := [''sess'' \<mapsto> example_model\<lparr>has_weathering_uncertainty := True\<rparr>]\<rparr>))
     = Some [ExcTuple (OtherError ''boom'')] \<and>
   fst (run_greenlet 0
          \<lparr>at_start = ack,
           iterations = [(example_step ack idle)\<lparr>it_workers := [ExcTuple (OtherError ''boom'')]\<rparr>]\<rparr>
          (snd (run_model example_request
             (example_server\<lparr>models :=
                [''sess'' \<mapsto> example_model\<lparr>has_weathering_uncertainty := True\<rparr>]\<rparr>))))
     = Some Returned \<and>
   events (snd (run_greenlet 0
          \<lparr>at_start = ack,
           iterations = [(example_step ack idle)\<lparr>it_workers := [ExcTuple (OtherError ''boom'')]\<rparr>]\<rparr>
          (snd (run_model example_request
             (example_server\<lparr>models :=
                [''sess'' \<mapsto> example_model\<lparr>has_weathering_uncertainty := True\<rparr>]\<rparr>))))) =
     [(''prepared'', NoPayload, Some ''sock''),
      (''step'', Rec [(''Trajectory'', Block [(''n'', PInt 1)])], Some ''sock''),
      (''complete'', Msg ''Model run completed'', None)]"
  by (simp add: task_defs example_defs)

lemma collect_first_failure:
  "\<forall>s \<in> set pre. \<exists>b. weathering_of s = Inr b \<Longrightarrow> collect agg (pre @ ExcTuple e # post) = Inl e"
proof (induction pre arbitrary: agg)
  case Nil then show ?case by simp
next
  case (Cons s pre)
  then obtain b where "weathering_of s = Inr b" by auto
  with Cons show ?case by (cases s) auto
qed

lemma aggregate_first_failure:
  assumes "dict_in ''WeatheringOutput'' raw" and "\<forall>s \<in> set pre. \<exists>b. weathering_of s = Inr b"
  shows "aggregate_step t0 t1 t2 (Some (pre @ ExcTuple e # post)) raw = Inl e"
proof -
  from assms(1) obtain nominal where "dict_item raw ''WeatheringOutput'' = Inr nominal"
    by (auto simp: dict_in_def dict_item_def split: option.splits)
  with assms show ?thesis
    by (simp add: aggregate_step_def collect_first_failure)
qed

lemma events_first_step_setup [simp]: "events (first_step_setup sess m srv) = events srv"
  by (simp add: first_step_setup_def drop_uncertain_models_def set_uncertain_models_def Let_def)

lemma events_update_model [simp]: "events (update_model sess f srv) = events srv"
  by (simp add: update_model_def split: option.splits)

lemma models_first_step_setup [simp]: "models (first_step_setup sess m srv) = models srv"
  by (simp add: first_step_setup_def drop_uncertain_models_def set_uncertain_models_def Let_def)

lemma uncertain_update_model [simp]: "uncertain_models (update_model sess f srv) = uncertain_models srv"
  by (simp add: update_model_def split: option.splits)

lemma sessions_report [simp]: "sessions (report sockid r srv) = sessions srv"
  by (simp add: report_def emit_def split: option.splits raised.splits)

lemma events_finally [simp]: "events (snd (finally_block sockid copy srv)) = events srv"
  by (simp add: finally_block_def save_session_def Let_def split: option.splits)

text \<open>
  Claim C3, amended. In a step where uncertainty workers are present and the nominal
  record has the \<open>WeatheringOutput\<close> block: if a worker's result encodes a failure \<open>e\<close> other
  than \<open>StopIteration\<close> and every result before it carries a weathering block (so it is the
  first failure in worker order), then \<open>e\<close> leaves the loop in this step, with the session
  copy untouched and no event emitted for the step; the handler reports it as a
  \<open>runtimeError\<close> event with its message, and the task ends with an exception, which is
  \<open>e\<close> itself when the \<open>finally\<close> clause raises nothing.
\<close>

theorem worker_failure_fails_step:
  assumes "models srv sess = Some m"
    and "uncertain_models (first_step_setup sess m srv) sess"
    and "it_step it = Inr raw" and "dict_in ''WeatheringOutput'' raw"
    and "it_workers it = pre @ ExcTuple e # post"
    and "\<forall>s \<in> set pre. \<exists>b. weathering_of s = Inr b"
    and "e \<noteq> StopIteration"
  shows "\<exists>srv1 grn srv2.
           run_loop sess sockid gid send_output (it # its) copy srv = (Some (Exc e), copy, srv1) \<and>
           events srv1 = events srv \<and>
           unwind sockid (Some (Exc e), copy, srv1) = (grn, srv2) \<and>
           events srv2 = events srv @ [(''runtimeError'', Msg (json_exception_message e), Some sockid)] \<and>
           (\<exists>x. grn = Raised (Exc x)) \<and>
           (fst (finally_block sockid copy srv1) = None \<longrightarrow> grn = Raised (Exc e))"
proof -
  define srv0 where "srv0 = first_step_setup sess m srv"
  define srv1 where
    "srv1 = update_model sess (\<lambda>m. m\<lparr>current_time_step := current_time_step m + 1\<rparr>) srv0"
  have steps: "get_uncertain_steps sess (it_workers it) srv1 = Some (pre @ ExcTuple e # post)"
    using assms(2,5) by (simp add: get_uncertain_steps_def srv1_def srv0_def)
  have ms: "model_step sess (Some it) srv = Fail e srv1"
    using assms(1,3,7) steps aggregate_first_failure[OF assms(4,6)]
    by (simp add: model_step_def Let_def srv1_def srv0_def handle_step_exn_def)
  have loop: "run_loop sess sockid gid send_output (it # its) copy srv = (Some (Exc e), copy, srv1)"
    using ms by simp
  have ev: "events srv1 = events srv" by (simp add: srv1_def srv0_def)
  obtain k srv2 where fb: "finally_block sockid copy (report sockid (Some (Exc e)) srv1) = (k, srv2)"
    by (cases "finally_block sockid copy (report sockid (Some (Exc e)) srv1)")
  have ev2: "events srv2 = events srv @ [(''runtimeError'', Msg (json_exception_message e), Some sockid)]"
  proof -
    have "events srv2 = events (report sockid (Some (Exc e)) srv1)"
      using events_finally[of sockid copy "report sockid (Some (Exc e)) srv1"] fb by simp
    then show ?thesis using ev by (simp add: report_def emit_def)
  qed
  have k_eq: "k = fst (finally_block sockid copy srv1)"
    using fb by (auto simp: finally_block_def Let_def report_def emit_def save_session_def split: option.splits)
  show ?thesis
  proof (cases k)
    case None
    with fb have "unwind sockid (Some (Exc e), copy, srv1) = (Raised (Exc e), srv2)"
      by (simp add: unwind_def)
    with loop ev ev2 show ?thesis by simp
  next
    case (Some x)
    with fb have "unwind sockid (Some (Exc e), copy, srv1) = (Raised (Exc x), srv2)"
      by (simp add: unwind_def)
    with loop ev ev2 Some k_eq show ?thesis by simp
  qed
qed


text \<open>
  Two workers fail; the first failure, \<open>boom\<close>, is the one reported.
\<close>

theorem worker_failure_fails_step_witness:
  "\<exists>srv1 grn srv2.
     run_loop ''sess'' ''sock'' 0 True
       [\<lparr>it_step = Inr [(''WeatheringOutput'', [(''time_stamp'', PStr ''t0'')])],
         it_workers = [Fragment [(''WeatheringOutput'', [(''a'', PInt 1)])],
                       ExcTuple (OtherError ''boom''),
                       ExcTuple (OtherError ''later'')],
         it_begin = 0, it_begin_uncertain = 1, it_end = 2, at_wait = idle, at_sleep = idle\<rparr>]
       [(''lock'', SLock), (''num_sent'', SInt 0)]
       (example_server\<lparr>models := [''sess'' \<mapsto> example_model\<lparr>has_weathering_uncertainty := True\<rparr>]\<rparr>)
       = (Some (Exc (OtherError ''boom'')), [(''lock'', SLock), (''num_sent'', SInt 0)], srv1) \<and>
     events srv1 = [] \<and>
     unwind ''sock'' (Some (Exc (OtherError ''boom'')), [(''lock'', SLock), (''num_sent'', SInt 0)], srv1)
       = (grn, srv2) \<and>
     events srv2 = [(''runtimeError'', Msg ''boom'', Some ''sock'')] \<and>
     (\<exists>x. grn = Raised (Exc x))"
proof -
  let ?m = "example_model\<lparr>has_weathering_uncertainty := True\<rparr>"
  let ?srv = "example_server\<lparr>models := [''sess'' \<mapsto> ?m]\<rparr>"
  let ?raw = "[(''WeatheringOutput'', [(''time_stamp'', PStr ''t0'')])]"
  let ?it = "\<lparr>it_step = Inr ?raw,
         it_workers = [Fragment [(''WeatheringOutput'', [(''a'', PInt 1)])],
                       ExcTuple (OtherError ''boom''),
                       ExcTuple (OtherError ''later'')],
         it_begin = 0, it_begin_uncertain = 1, it_end = 2, at_wait = idle, at_sleep = idle\<rparr>"
  have h1: "models ?srv ''sess'' = Some ?m" by simp
  have h2: "uncertain_models (first_step_setup ''sess'' ?m ?srv) ''sess''"
    by (simp add: first_step_setup_def example_model_def drop_uncertain_models_def
          set_uncertain_models_def)
  have h3: "it_step ?it = Inr ?raw" by simp
  have h4: "dict_in ''WeatheringOutput'' ?raw" by (simp add: dict_in_def)
  have h5: "it_workers ?it = [Fragment [(''WeatheringOutput'', [(''a'', PInt 1)])]] @
              ExcTuple (OtherError ''boom'') # [ExcTuple (OtherError ''later'')]" by simp
  have h6: "\<forall>s \<in> set [Fragment [(''WeatheringOutput'', [(''a'', PInt 1)])]]. \<exists>b. weathering_of s = Inr b"
    by (simp add: dict_item_def)
  have h7: "OtherError ''boom'' \<noteq> StopIteration" by simp
  have ev: "events ?srv = []" by (simp add: example_server_def)
  from worker_failure_fails_step[OF h1 h2 h3 h4 h5 h6 h7, of "''sock''" 0 True "[]"
      "[(''lock'', SLock), (''num_sent'', SInt 0)]"]
  obtain srv1 grn srv2 where
    a: "run_loop ''sess'' ''sock'' 0 True [?it] [(''lock'', SLock), (''num_sent'', SInt 0)] ?srv
          = (Some (Exc (OtherError ''boom'')), [(''lock'', SLock), (''num_sent'', SInt 0)], srv1)" and
    b: "events srv1 = events ?srv" and
    c: "unwind ''sock'' (Some (Exc (OtherError ''boom'')), [(''lock'', SLock), (''num_sent'', SInt 0)], srv1)
          = (grn, srv2)" and
    d: "events srv2 = events ?srv @
          [(''runtimeError'', Msg (json_exception_message (OtherError ''boom'')), Some ''sock'')]" and
    e: "\<exists>x. grn = Raised (Exc x)"
    by blast
  have b': "events srv1 = []" using b ev by simp
  have d': "events srv2 = [(''runtimeError'', Msg ''boom'', Some ''sock'')]" using d ev by simp
  show ?thesis
    by (intro exI[of _ srv1] exI[of _ grn] exI[of _ srv2] conjI) (rule a b' c d' e)+
qed

section \<open>The two gate waits\<close>

lemma events_external [simp]: "events (external sockid gid sus srv) = events srv"
  by (simp add: external_def save_session_def kill_nonblocking_def Let_def split: ext.splits)

lemma gate_wait_events: "gate_wait sockid gid sus srv = (r, srv1) \<Longrightarrow> events srv1 = events srv"
  by (auto simp: gate_wait_def Let_def split: if_splits)

lemma gevent_sleep_events: "gevent_sleep sockid gid sus srv = (r, srv1) \<Longrightarrow> events srv1 = events srv"
  by (auto simp: gevent_sleep_def Let_def split: if_splits)

lemma await_next_silent: "await_next sockid gid it srv = (r, srv1) \<Longrightarrow> events srv1 = events srv"
  by (auto simp: await_next_def event_truthy_def save_session_def Let_def
        split: sum.splits prod.splits dest!: gate_wait_events gevent_sleep_events)

text \<open>
  Claim C6 at a concrete run. In step-by-step mode the client acknowledges \<open>prepared\<close> and
  then never sets the gate again. The wait of line 345 returns \<open>False\<close>, and yet
  \<open>await_next\<close> emits nothing and raises nothing: the run goes on to the next pass, where
  the model is out of steps, and completes. No \<open>timeout\<close> event is emitted and no kill is
  requested.
\<close>

theorem loop_timeout_not_emitted:
  "fst (gate_wait ''sock'' 0 idle (snd (run_model example_request example_server))) = Inr False \<and>
   fst (await_next ''sock'' 0 (example_step idle idle)
          (snd (run_model example_request example_server))) = None \<and>
   events (snd (await_next ''sock'' 0 (example_step idle idle)
          (snd (run_model example_request example_server)))) = [] \<and>
   fst (run_greenlet 0 \<lparr>at_start = ack, iterations = [example_step idle idle]\<rparr>
          (snd (run_model example_request example_server))) = Some Returned \<and>
   events (snd (run_greenlet 0 \<lparr>at_start = ack, iterations = [example_step idle idle]\<rparr>
          (snd (run_model example_request example_server)))) =
     [(''prepared'', NoPayload, Some ''sock''),
      (''step'', Rec [(''Trajectory'', Block [(''n'', PInt 1)])], Some ''sock''),
      (''complete'', Msg ''Model run completed'', None)]"
  by (simp add: task_defs example_defs)

text \<open>
  Claim C7 at a concrete run. The gate is never set. The task emits \<open>prepared\<close> and one
  \<open>timeout\<close>, requests its own cancellation, and then enters the loop: the model is stepped
  (its time step goes from \<open>-1\<close> to \<open>0\<close>) and a \<open>step\<close> event is emitted before the kill is
  delivered at the next gate wait.
\<close>

theorem start_timeout_still_steps:
  "fst (run_greenlet 0 \<lparr>at_start = idle, iterations = [example_step idle idle]\<rparr>
          (snd (run_model example_request example_server))) = Some (Raised GreenletExit) \<and>
   events (snd (run_greenlet 0 \<lparr>at_start = idle, iterations = [example_step idle idle]\<rparr>
          (snd (run_model example_request example_server)))) =
     [(''prepared'', NoPayload, Some ''sock''),
      (''timeout'', Msg ''Model not started, timed out after 16 sec'', Some ''sock''),
      (''step'', Rec [(''Trajectory'', Block [(''n'', PInt 1)])], Some ''sock''),
      (''killed'', Msg ''Model run terminated early'', Some ''sock'')] \<and>
   map_option current_time_step
     (models (snd (run_greenlet 0 \<lparr>at_start = idle, iterations = [example_step idle idle]\<rparr>
          (snd (run_model example_request example_server)))) ''sess'') = Some 0"
  by (simp add: task_defs example_defs)



section \<open>What a task leaves unchanged\<close>

lemma task_frame_refl [simp]: "task_frame srv srv"
  by (simp add: task_frame_def)

lemma task_frame_trans: "task_frame a b \<Longrightarrow> task_frame b c \<Longrightarrow> task_frame a c"
  by (auto simp: task_frame_def)

lemma step_emit:
  "name \<in> {''prepared'', ''timeout'', ''killed'', ''step'', ''complete'', ''runtimeError''} \<Longrightarrow>
   task_frame b (emit name p room b)"
  by (auto simp: task_frame_def emit_def task_event_def)

lemma step_save_session: "task_frame b (save_session sockid s b)"
  by (simp add: task_frame_def save_session_def)

lemma step_gates: "task_frame b (b\<lparr>gates := g\<rparr>)"
  by (simp add: task_frame_def)

lemma static_kill [simp]: "static (g\<lparr>kill_pending := b\<rparr>) = static g"
  by (simp add: static_def)

lemma step_kill: "task_frame b (kill_nonblocking g b)"
proof -
  have "map static ((greenlets b)[g := (greenlets b ! g)\<lparr>kill_pending := True\<rparr>]) = map static (greenlets b)"
    if "g < length (greenlets b)"
    using that by (simp add: map_update list_update_same_conv)
  then show ?thesis by (simp add: task_frame_def kill_nonblocking_def)
qed

lemma step_drop: "task_frame b (drop_uncertain_models sess b)"
  by (simp add: task_frame_def drop_uncertain_models_def)

lemma step_set: "task_frame b (set_uncertain_models sess b)"
  by (simp add: task_frame_def set_uncertain_models_def)

lemma step_advance:
  "task_frame b (update_model sess (\<lambda>m. m\<lparr>current_time_step := current_time_step m + 1\<rparr>) b)"
  by (auto simp: task_frame_def update_model_def split: option.splits)

lemmas frame_emit = task_frame_trans[OF _ step_emit]
lemmas frame_save_session = task_frame_trans[OF _ step_save_session]
lemmas frame_gates = task_frame_trans[OF _ step_gates]
lemmas frame_kill = task_frame_trans[OF _ step_kill]
lemmas frame_drop = task_frame_trans[OF _ step_drop]
lemmas frame_set = task_frame_trans[OF _ step_set]
lemmas frame_advance = task_frame_trans[OF _ step_advance]

lemma frame_on_model_kill: "task_frame a b \<Longrightarrow> task_frame a (on_model_kill sockid b)"
  by (cases "active_greenlets b sockid") (simp_all add: on_model_kill_def frame_kill)

lemma frame_external: "task_frame a b \<Longrightarrow> task_frame a (external sockid gid sus b)"
  by (cases "ext_action sus")
     (simp_all add: external_def Let_def frame_kill frame_gates frame_save_session)

lemma frame_gate_wait:
  assumes "gate_wait sockid gid sus b = (r, c)" and "task_frame a b"
  shows "task_frame a c"
proof -
  have "c = b \<or> c = external sockid gid sus b"
    using assms(1) by (auto simp: gate_wait_def Let_def split: if_splits)
  then show ?thesis using assms(2) frame_external by auto
qed

lemma frame_gevent_sleep:
  assumes "gevent_sleep sockid gid sus b = (r, c)" and "task_frame a b"
  shows "task_frame a c"
proof -
  have "c = external sockid gid sus b"
    using assms(1) by (auto simp: gevent_sleep_def Let_def split: if_splits)
  then show ?thesis using assms(2) frame_external by auto
qed

lemma frame_await_start:
  assumes "await_start sockid gid sus b = (r, c)" and "task_frame a b"
  shows "task_frame a c"
proof -
  define b1 where "b1 = emit ''prepared'' NoPayload (Some sockid) b"
  have f1: "task_frame a b1" unfolding b1_def using assms(2) by (rule frame_emit) simp
  show ?thesis
  proof (cases "lock_of (sessions b1 sockid)")
    case (Inl e)
    with assms(1) have "c = save_session sockid (sessions b1 sockid) b1"
      by (simp add: await_start_def Let_def b1_def)
    then show ?thesis using f1 by (simp add: frame_save_session)
  next
    case (Inr u)
    obtain w b2 where gw: "gate_wait sockid gid sus b1 = (w, b2)"
      by (cases "gate_wait sockid gid sus b1")
    have f2: "task_frame a b2" by (rule frame_gate_wait[OF gw f1])
    have f3: "task_frame a (on_model_kill sockid
                 (emit ''timeout'' (Msg ''Model not started, timed out after 16 sec'') (Some sockid) b2))"
      by (rule frame_on_model_kill, rule frame_emit[OF f2]) simp
    from assms(1) Inr gw have
      "c = save_session sockid (sessions b1 sockid) b2 \<or>
       c = save_session sockid (sessions b1 sockid) (on_model_kill sockid
                 (emit ''timeout'' (Msg ''Model not started, timed out after 16 sec'') (Some sockid) b2))"
      by (auto simp: await_start_def Let_def b1_def split: sum.splits if_splits)
    then show ?thesis using f2 f3 by (auto intro: frame_save_session)
  qed
qed


lemma frame_first_step_setup: "task_frame a b \<Longrightarrow> task_frame a (first_step_setup sess m b)"
  by (simp add: first_step_setup_def Let_def frame_drop frame_set)

lemma frame_handle_step_exn: "task_frame a b \<Longrightarrow> task_frame a (server_of (handle_step_exn sess e b))"
  by (simp add: handle_step_exn_def frame_drop)

lemma frame_model_step:
  assumes "task_frame a b"
  shows "task_frame a (server_of (model_step sess it b))"
proof (cases "models b sess")
  case None
  then show ?thesis using assms by (simp add: model_step_def frame_handle_step_exn)
next
  case (Some m)
  define b1 where "b1 = first_step_setup sess m b"
  have f1: "task_frame a b1" unfolding b1_def by (rule frame_first_step_setup[OF assms])
  show ?thesis
  proof (cases it)
    case None
    with Some f1 show ?thesis by (simp add: model_step_def b1_def frame_handle_step_exn)
  next
    case (Some i)
    note it = this
    show ?thesis
    proof (cases "it_step i")
      case (Inl e)
      with \<open>models b sess = Some m\<close> it f1 show ?thesis
        by (simp add: model_step_def b1_def frame_handle_step_exn)
    next
      case (Inr raw)
      define b2 where
        "b2 = update_model sess (\<lambda>m. m\<lparr>current_time_step := current_time_step m + 1\<rparr>) b1"
      have f2: "task_frame a b2" unfolding b2_def by (rule frame_advance[OF f1])
      show ?thesis
      proof (cases "aggregate_step (it_begin i) (it_begin_uncertain i) (it_end i)
                      (get_uncertain_steps sess (it_workers i) b2) raw")
        case (Inl e)
        with \<open>models b sess = Some m\<close> it Inr f2 show ?thesis
          by (simp add: model_step_def Let_def b1_def[symmetric] b2_def[symmetric] frame_handle_step_exn)
      next
        case (Inr out)
        with \<open>models b sess = Some m\<close> it \<open>it_step i = Inr raw\<close> f2 show ?thesis
          by (simp add: model_step_def Let_def b1_def[symmetric] b2_def[symmetric])
      qed
    qed
  qed
qed

lemma frame_emit_step: "task_frame a b \<Longrightarrow> task_frame a (emit_step sockid so out n b)"
  by (simp add: emit_step_def frame_emit)

lemma frame_clear_gate:
  assumes "clear_gate sockid b = (r, c)" and "task_frame a b"
  shows "task_frame a c"
proof -
  have "c = b \<or> c = save_session sockid (sessions b sockid) b \<or>
        c = save_session sockid (sessions b sockid) (b\<lparr>gates := (gates b)(sockid := False)\<rparr>)"
    using assms(1) by (auto simp: clear_gate_def Let_def split: if_splits sum.splits)
  then show ?thesis using assms(2) by (auto intro: frame_save_session frame_gates)
qed

lemma frame_await_next:
  assumes "await_next sockid gid it b = (r, c)" and "task_frame a b"
  shows "task_frame a c"
proof (cases "lock_of (sessions b sockid)")
  case (Inl e)
  with assms(1) have "c = save_session sockid (sessions b sockid) b"
    by (simp add: await_next_def Let_def)
  then show ?thesis using assms(2) by (simp add: frame_save_session)
next
  case (Inr u)
  obtain w b1 where gw: "gate_wait sockid gid (at_wait it) b = (w, b1)"
    by (cases "gate_wait sockid gid (at_wait it) b")
  have f1: "task_frame a b1" by (rule frame_gate_wait[OF gw assms(2)])
  show ?thesis
  proof (cases w)
    case (Inl x)
    with assms(1) Inr gw have "c = save_session sockid (sessions b sockid) b1"
      by (simp add: await_next_def Let_def)
    then show ?thesis using f1 by (simp add: frame_save_session)
  next
    case (Inr v)
    with assms(1) \<open>lock_of (sessions b sockid) = Inr u\<close> gw
    have "gevent_sleep sockid gid (at_sleep it) (save_session sockid (sessions b sockid) b1) = (r, c)"
      by (simp add: await_next_def Let_def event_truthy_def)
    then show ?thesis by (rule frame_gevent_sleep) (rule frame_save_session[OF f1])
  qed
qed

lemma frame_run_loop:
  "run_loop sess sockid gid so its copy b = (r, copy', c) \<Longrightarrow> task_frame a b \<Longrightarrow> task_frame a c"
proof (induction its arbitrary: copy b)
  case Nil
  from frame_model_step[OF Nil.prems(2), of sess None] Nil.prems(1)
  show ?case by (cases "model_step sess None b") auto
next
  case (Cons it its)
  note ms = frame_model_step[OF Cons.prems(2), of sess "Some it"]
  show ?case
  proof (cases "model_step sess (Some it) b")
    case (Break b1) with ms Cons.prems(1) show ?thesis by auto
  next
    case (Fail e b1) with ms Cons.prems(1) show ?thesis by auto
  next
    case (Out out b1)
    with ms have f1: "task_frame a b1" by simp
    show ?thesis
    proof (cases "incr_num_sent copy")
      case (Inl e) with Out f1 Cons.prems(1) show ?thesis by auto
    next
      case (Inr p)
      obtain copy1 n where p: "p = (copy1, n)" by (cases p)
      obtain r2 b2 where cg: "clear_gate sockid (emit_step sockid so out n b1) = (r2, b2)"
        by (cases "clear_gate sockid (emit_step sockid so out n b1)")
      have f2: "task_frame a b2" by (rule frame_clear_gate[OF cg frame_emit_step[OF f1]])
      show ?thesis
      proof (cases r2)
        case (Some x)
        with Out Inr p cg Cons.prems(1) f2 show ?thesis by auto
      next
        case None
        obtain r3 b3 where an: "await_next sockid gid it b2 = (r3, b3)"
          by (cases "await_next sockid gid it b2")
        have f3: "task_frame a b3" by (rule frame_await_next[OF an f2])
        show ?thesis
        proof (cases r3)
          case (Some x)
          with Out Inr p cg None an Cons.prems(1) f3 show ?thesis by auto
        next
          case None
          with Out Inr p cg \<open>r2 = None\<close> an Cons.prems(1)
          have "run_loop sess sockid gid so its copy1 b3 = (r, copy', c)" by simp
          from Cons.IH[OF this f3] show ?thesis .
        qed
      qed
    qed
  qed
qed

lemma frame_report: "task_frame a b \<Longrightarrow> task_frame a (report sockid r b)"
  by (auto simp: report_def frame_emit split: option.splits raised.splits)

lemma frame_finally:
  assumes "finally_block sockid copy b = (k, c)" and "task_frame a b"
  shows "task_frame a c"
proof -
  have "c = save_session sockid (sessions b sockid) b \<or>
        c = save_session sockid copy (save_session sockid (sessions b sockid) b)"
    using assms(1) by (auto simp: finally_block_def Let_def split: option.splits)
  then show ?thesis using assms(2) by (auto intro: frame_save_session)
qed

lemma frame_unwind:
  assumes "unwind sockid (r, copy, b) = (grn, c)" and "task_frame a b"
  shows "task_frame a c"
proof -
  obtain k b1 where fb: "finally_block sockid copy (report sockid r b) = (k, b1)"
    by (cases "finally_block sockid copy (report sockid r b)")
  have f1: "task_frame a b1" by (rule frame_finally[OF fb frame_report[OF assms(2)]])
  have "c = b1 \<or> c = emit ''complete'' (Msg ''Model run completed'') None b1"
    using assms(1) fb by (auto simp: unwind_def split: option.splits)
  then show ?thesis using f1 by (auto intro: frame_emit)
qed

lemma frame_execute:
  assumes "execute_async_model sess sockid gid so e b = (grn, c)"
  shows "task_frame b c"
proof -
  obtain r0 b0 where as: "await_start sockid gid (at_start e) b = (r0, b0)"
    by (cases "await_start sockid gid (at_start e) b")
  have f0: "task_frame b b0" by (rule frame_await_start[OF as task_frame_refl])
  show ?thesis
  proof (cases r0)
    case (Some x)
    with assms as have "unwind sockid (Some x, sessions b sockid, b0) = (grn, c)"
      by (simp add: execute_async_model_def Let_def)
    then show ?thesis by (rule frame_unwind) (rule f0)
  next
    case None
    obtain r1 copy1 b1 where rl:
      "run_loop sess sockid gid so (iterations e) (sessions b sockid) b0 = (r1, copy1, b1)"
      by (cases "run_loop sess sockid gid so (iterations e) (sessions b sockid) b0") auto
    have f1: "task_frame b b1" by (rule frame_run_loop[OF rl f0])
    from assms as None rl have "unwind sockid (r1, copy1, b1) = (grn, c)"
      by (simp add: execute_async_model_def Let_def)
    then show ?thesis by (rule frame_unwind) (rule f1)
  qed
qed

section \<open>One task per session\<close>






lemma cleanup_registry:
  "cleanup temps mf sp sockid sess grn srv = (r, c) \<Longrightarrow>
     active_greenlets c = active_greenlets srv \<and> greenlets c = greenlets srv"
  by (auto simp: cleanup_def update_model_def emit_def Let_def
        split: option.splits prod.splits outcome.splits sum.splits)





















section \<open>Rewind\<close>





section \<open>The export cleanup\<close>

lemma probe_cong: "fs' p = fs p \<Longrightarrow> probe fs' p = probe fs p"
  by (simp add: probe_def)




lemma files_update_model [simp]: "files (update_model sess f srv) = files srv"
  by (simp add: update_model_def split: option.splits)




lemmas export_defs =
  export_request_def scratch_files_def export_server_def example_request_def example_server_def
  example_model_def run_export_model_def temporary_outputters_def attach_def update_model_def
  start_task_def slot_active_def spawn_def save_session_def os_path_join_def Let_def


lemma remove_id_attached:
  "o_id t \<notin> o_id ` set outs \<Longrightarrow> remove_id (o_id t) (outs @ t # rest) = Inr (outs @ rest)"
  by (induction outs) auto

lemma detach_attached:
  "distinct (map o_id temps) \<Longrightarrow> \<forall>t \<in> set temps. o_id t \<notin> o_id ` set outs \<Longrightarrow>
     detach temps (outs @ temps) = (None, outs)"
proof (induction temps)
  case Nil then show ?case by simp
next
  case (Cons t ts)
  then have "remove_id (o_id t) (outs @ t # ts) = Inr (outs @ ts)"
    by (intro remove_id_attached) simp
  moreover have "detach ts (outs @ ts) = (None, outs)" using Cons by simp
  ultimately show ?case by simp
qed

lemma cleanup_model:
  assumes "models srv sess = Some m" and "detach temps (outputters m) = (None, outs)"
  shows "models (snd (cleanup temps mf sp sockid sess grn srv)) sess =
           Some (rewind (m\<lparr>outputters := outs\<rparr>))"
  using assms
  by (auto simp: cleanup_def update_model_def emit_def Let_def
        split: outcome.splits prod.splits sum.splits)

lemma cleanup_failed:
  assumes "models srv sess = Some m" and "detach temps (outputters m) = (None, outs)"
  shows "cleanup temps mf sp sockid sess (Raised r) srv =
           (None, emit ''export_failed'' NoPayload (Some sockid)
                    (update_model sess (\<lambda>m. rewind (m\<lparr>outputters := outs\<rparr>)) srv))"
  using assms by (simp add: cleanup_def Let_def)

text \<open>
  Claim C4. A live greenlet whose linked callback is the export cleanup, with the
  temporary outputters attached to the model: whatever the environment does, the
  greenlet ends and is dead, the model has lost exactly the temporary outputters and is
  rewound; and when the task did not return normally (an exception or \<open>GreenletExit\<close>, also
  a kill before the task ever started) the only event of the run that is not one of the
  task's own is a single \<open>export_failed\<close>, so no \<open>export_finished\<close>, and the files are
  untouched.
\<close>

theorem export_cleanup_after_run:
  assumes "gid < length (greenlets srv)" and "alive (greenlets srv ! gid)"
    and "links (greenlets srv ! gid) = [ExportCleanup temps mf sp sockid sess]"
    and "models srv sess = Some m"
    and "detach temps (outputters m) = (None, outs)"
  shows "let res = run_greenlet gid e srv; srv' = snd res;
             new = drop (length (events srv)) (events srv') in
         (\<exists>grn. fst res = Some grn) \<and>
         \<not> alive (greenlets srv' ! gid) \<and>
         map_option outputters (models srv' sess) = Some outs \<and>
         map_option current_time_step (models srv' sess) = Some (- 1) \<and>
         (fst res \<noteq> Some Returned \<longrightarrow>
            filter (\<lambda>ev. \<not> task_event ev) new = [(''export_failed'', NoPayload, Some sockid)] \<and>
            files srv' = files srv)"
proof -
  define g where "g = greenlets srv ! gid"
  obtain grn srv1 where ex:
    "(if kill_pending g then (Raised GreenletExit, srv)
      else execute_async_model (gl_session g) (gl_sockid g) gid True e srv) = (grn, srv1)"
    by (cases "(if kill_pending g then (Raised GreenletExit, srv)
      else execute_async_model (gl_session g) (gl_sockid g) gid True e srv)")
  have tf: "task_frame srv srv1"
    using ex frame_execute by (auto split: if_splits)
  from tf obtain new1 where ev1: "events srv1 = events srv @ new1" and te: "list_all task_event new1"
    by (auto simp: task_frame_def)
  from tf have fl1: "files srv1 = files srv" by (simp add: task_frame_def)
  from tf have "map_option outputters (models srv1 sess) = map_option outputters (models srv sess)"
    by (simp add: task_frame_def)
  with assms(4) obtain m1 where m1: "models srv1 sess = Some m1" and o1: "outputters m1 = outputters m"
    by (cases "models srv1 sess") auto
  from tf have "map static (greenlets srv1) = map static (greenlets srv)" by (simp add: task_frame_def)
  then have len1: "length (greenlets srv1) = length (greenlets srv)" by (rule map_eq_imp_length_eq)
  define srv2 where
    "srv2 = srv1\<lparr>greenlets := (greenlets srv1)[gid := (greenlets srv1 ! gid)\<lparr>alive := False\<rparr>]\<rparr>"
  have m2: "models srv2 sess = Some m1" by (simp add: srv2_def m1)
  have d2: "detach temps (outputters m1) = (None, outs)" using assms(5) o1 by simp
  have dead2: "\<not> alive (greenlets srv2 ! gid)" using assms(1) len1 by (simp add: srv2_def)
  define srv3 where "srv3 = snd (cleanup temps mf sp sockid sess grn srv2)"
  have res: "run_greenlet gid e srv = (Some grn, srv3)"
    using assms(1,2,3) ex
    by (simp add: run_greenlet_def Let_def g_def[symmetric] srv2_def srv3_def)
  obtain r3 where c3: "cleanup temps mf sp sockid sess grn srv2 = (r3, srv3)"
    by (cases "cleanup temps mf sp sockid sess grn srv2") (simp add: srv3_def)
  have g3: "greenlets srv3 = greenlets srv2" using cleanup_registry[OF c3] by simp
  have m3: "models srv3 sess = Some (rewind (m1\<lparr>outputters := outs\<rparr>))"
    unfolding srv3_def by (rule cleanup_model[OF m2 d2])
  have failed: "filter (\<lambda>ev. \<not> task_event ev) (drop (length (events srv)) (events srv3)) =
                  [(''export_failed'', NoPayload, Some sockid)] \<and> files srv3 = files srv"
    if "grn \<noteq> Returned"
  proof -
    from that obtain r where "grn = Raised r" by (cases grn) auto
    with cleanup_failed[OF m2 d2, of mf sp sockid r] c3
    have s3: "srv3 = emit ''export_failed'' NoPayload (Some sockid)
                    (update_model sess (\<lambda>m. rewind (m\<lparr>outputters := outs\<rparr>)) srv2)"
      by simp
    have e3: "events srv3 = events srv @ new1 @ [(''export_failed'', NoPayload, Some sockid)]"
      by (simp add: s3 emit_def srv2_def ev1)
    have f3: "files srv3 = files srv" by (simp add: s3 emit_def srv2_def fl1)
    have nt: "filter (\<lambda>ev. \<not> task_event ev) new1 = []"
      using te by (simp add: list_all_iff filter_empty_conv)
    show ?thesis using e3 f3 nt by (simp add: task_event_def)
  qed
  show ?thesis
    unfolding Let_def res using dead2 g3 m3 failed by (simp add: rewind_def)
qed

text \<open>An accepted export request produces such a greenlet, when the new outputters' ids
  are distinct and new to the model.\<close>

lemma export_request_spawns:
  assumes "sio_ns srv" and "sockid_of srv (req_session req) = Some sockid"
    and "models srv (req_session req) = Some m" and "\<not> slot_active sockid srv"
    and "distinct (map o_id (req_outputters req))"
    and "\<forall>t \<in> set (req_outputters req). o_id t \<notin> o_id ` set (outputters m)"
  shows "let srv1 = snd (run_export_model req srv); gid = length (greenlets srv);
             temps = temporary_outputters req in
         fst (run_export_model req srv) = None \<and>
         gid < length (greenlets srv1) \<and> alive (greenlets srv1 ! gid) \<and>
         active_greenlets srv1 sockid = Some gid \<and>
         links (greenlets srv1 ! gid) =
           [ExportCleanup temps (req_model_name req) (req_dir req) sockid (req_session req)] \<and>
         models srv1 (req_session req) = Some (m\<lparr>outputters := outputters m @ temps\<rparr>) \<and>
         detach temps (outputters m @ temps) = (None, outputters m)"
proof -
  have ids: "map o_id (temporary_outputters req) = map o_id (req_outputters req)"
    by (simp add: temporary_outputters_def comp_def)
  have "distinct (map o_id (temporary_outputters req))" using assms(5) ids by simp
  moreover have "\<forall>t \<in> set (temporary_outputters req). o_id t \<notin> o_id ` set (outputters m)"
    using assms(6) by (auto simp: temporary_outputters_def)
  ultimately have d: "detach (temporary_outputters req) (outputters m @ temporary_outputters req) =
                        (None, outputters m)"
    by (rule detach_attached)
  show ?thesis
    using assms(1-4) d
    by (simp add: run_export_model_def attach_def update_model_def start_task_def
          slot_active_def spawn_def save_session_def Let_def nth_append
          cong: option.case_cong)
qed

text \<open>
  The export of the concrete session, killed while it waits after its first step.
\<close>

theorem export_cleanup_after_run_witness:
  "fst (run_greenlet 0
          \<lparr>at_start = ack, iterations = [example_step \<lparr>ext_action = Kill, ext_writes = []\<rparr> idle]\<rparr>
          export_server) = Some (Raised GreenletExit) \<and>
   filter (\<lambda>ev. \<not> task_event ev)
     (events (snd (run_greenlet 0
          \<lparr>at_start = ack, iterations = [example_step \<lparr>ext_action = Kill, ext_writes = []\<rparr> idle]\<rparr>
          export_server))) = [(''export_failed'', NoPayload, Some ''sock'')] \<and>
   map_option outputters (models (snd (run_greenlet 0
          \<lparr>at_start = ack, iterations = [example_step \<lparr>ext_action = Kill, ext_writes = []\<rparr> idle]\<rparr>
          export_server)) ''sess'') = Some [] \<and>
   files (snd (run_greenlet 0
          \<lparr>at_start = ack, iterations = [example_step \<lparr>ext_action = Kill, ext_writes = []\<rparr> idle]\<rparr>
          export_server)) = scratch_files"
proof -
  let ?e = "\<lparr>at_start = ack, iterations = [example_step \<lparr>ext_action = Kill, ext_writes = []\<rparr> idle]\<rparr>"
  let ?t1 = "\<lparr>o_id = ''o1'', filename = ''/tmp/export/a.out''\<rparr>"
  let ?t2 = "\<lparr>o_id = ''o2'', filename = ''/tmp/export/shape''\<rparr>"
  let ?m = "\<lparr>current_time_step = - 1, has_weathering_uncertainty = False, outputters = [?t1, ?t2]\<rparr>"
  have h1: "0 < length (greenlets export_server)"
    and h2: "alive (greenlets export_server ! 0)"
    and h3: "links (greenlets export_server ! 0) =
               [ExportCleanup [?t1, ?t2] ''run'' ''/data/sess'' ''sock'' ''sess'']"
    and h4: "models export_server ''sess'' = Some ?m"
    and ev: "events export_server = []"
    and fs: "files export_server = scratch_files"
    by (simp_all add: export_defs)
  have h5: "detach [?t1, ?t2] (outputters ?m) = (None, [])" by simp
  have run: "fst (run_greenlet 0 ?e export_server) = Some (Raised GreenletExit)"
    by (simp add: task_defs export_defs example_defs cleanup_def rewind_def)
  from export_cleanup_after_run[OF h1 h2 h3 h4 h5, where e="?e"] run ev fs
  show ?thesis unfolding Let_def by simp
qed

section \<open>Write-back of the session copy\<close>

lemma dict_in_keys: "dict_in k s \<longleftrightarrow> k \<in> fst ` set s"
proof -
  have "dict_in k s \<longleftrightarrow> map_of s k \<noteq> None" by (simp add: dict_in_def split: option.splits)
  then show ?thesis by (simp add: map_of_eq_None_iff)
qed

lemma keys_dict_set: "fst ` set (dict_set d k v) = insert k (fst ` set d)"
  by (simp add: dict_set_def dom_update)

lemma keys_writes:
  "fst ` set (fold (\<lambda>kv d. dict_set d (fst kv) (snd kv)) ws d) = fst ` set d \<union> fst ` set ws"
  by (induction ws arbitrary: d) (auto simp: keys_dict_set)

lemma sessions_external:
  "sessions (external sockid gid sus b) sockid =
     fold (\<lambda>kv d. dict_set d (fst kv) (snd kv)) (ext_writes sus) (sessions b sockid)"
  by (cases "ext_action sus")
     (simp_all add: external_def save_session_def kill_nonblocking_def Let_def)

lemma keys_external:
  assumes "known_writes s0 sus" and "fst ` set (sessions b sockid) \<subseteq> fst ` set s0"
  shows "fst ` set (sessions (external sockid gid sus b) sockid) \<subseteq> fst ` set s0"
proof -
  from assms(1) have "fst ` set (ext_writes sus) \<subseteq> fst ` set s0"
    by (auto simp: known_writes_def list_all_iff dict_in_keys)
  with assms(2) show ?thesis by (simp add: sessions_external keys_writes)
qed

lemma keys_gate_wait:
  assumes "gate_wait sockid gid sus b = (r, c)" and "known_writes s0 sus"
    and "fst ` set (sessions b sockid) \<subseteq> fst ` set s0"
  shows "fst ` set (sessions c sockid) \<subseteq> fst ` set s0"
proof -
  have "c = b \<or> c = external sockid gid sus b"
    using assms(1) by (auto simp: gate_wait_def Let_def split: if_splits)
  then show ?thesis using assms(3) keys_external[OF assms(2,3), of gid] by auto
qed

lemma keys_gevent_sleep:
  assumes "gevent_sleep sockid gid sus b = (r, c)" and "known_writes s0 sus"
    and "fst ` set (sessions b sockid) \<subseteq> fst ` set s0"
  shows "fst ` set (sessions c sockid) \<subseteq> fst ` set s0"
proof -
  have "c = external sockid gid sus b"
    using assms(1) by (auto simp: gevent_sleep_def Let_def split: if_splits)
  then show ?thesis using keys_external[OF assms(2,3), of gid] by simp
qed

lemma sessions_saved: "sessions (save_session sockid s b) sockid = s"
  by (simp add: save_session_def)

lemma sessions_emit [simp]: "sessions (emit name p room b) = sessions b"
  by (simp add: emit_def)

lemma sessions_on_model_kill [simp]: "sessions (on_model_kill sockid b) = sessions b"
  by (simp add: on_model_kill_def kill_nonblocking_def split: option.splits)

lemma events_on_model_kill [simp]: "events (on_model_kill sockid b) = events b"
  by (simp add: on_model_kill_def kill_nonblocking_def split: option.splits)

lemma events_save_session [simp]: "events (save_session sockid s b) = events b"
  by (simp add: save_session_def)

text \<open>The start barrier: every exit saves the session read on entry.\<close>

lemma await_start_session:
  assumes "await_start sockid gid sus b = (r, c)"
  shows "sessions c sockid = sessions b sockid"
  using assms
  by (auto simp: await_start_def Let_def sessions_saved split: sum.splits prod.splits if_splits)

lemma await_start_no_step:
  assumes "await_start sockid gid sus b = (r, c)"
  shows "\<exists>pre. events c = events b @ pre \<and> filter (\<lambda>ev. fst ev = ''step'') pre = []"
proof -
  define b1 where "b1 = emit ''prepared'' NoPayload (Some sockid) b"
  have e1: "events b1 = events b @ [(''prepared'', NoPayload, Some sockid)]"
    by (simp add: b1_def emit_def)
  show ?thesis
  proof (cases "lock_of (sessions b1 sockid)")
    case (Inl e)
    with assms have "c = save_session sockid (sessions b1 sockid) b1"
      by (simp add: await_start_def Let_def b1_def)
    with e1 show ?thesis by simp
  next
    case (Inr u)
    obtain w b2 where gw: "gate_wait sockid gid sus b1 = (w, b2)"
      by (cases "gate_wait sockid gid sus b1")
    have e2: "events b2 = events b1" by (rule gate_wait_events[OF gw])
    from assms Inr gw have
      "c = save_session sockid (sessions b1 sockid) b2 \<or>
       c = save_session sockid (sessions b1 sockid) (on_model_kill sockid
                 (emit ''timeout'' (Msg ''Model not started, timed out after 16 sec'') (Some sockid) b2))"
      by (auto simp: await_start_def Let_def b1_def split: sum.splits if_splits)
    then show ?thesis using e1 e2 by (auto simp: emit_def)
  qed
qed

lemma sessions_model_step: "sessions (server_of (model_step sess it b)) = sessions b"
  by (auto simp: model_step_def handle_step_exn_def first_step_setup_def update_model_def
        drop_uncertain_models_def set_uncertain_models_def Let_def
        split: option.splits sum.splits)

lemma events_model_step: "events (server_of (model_step sess it b)) = events b"
  by (auto simp: model_step_def handle_step_exn_def first_step_setup_def update_model_def
        drop_uncertain_models_def set_uncertain_models_def Let_def
        split: option.splits sum.splits)

lemma emit_step_event:
  "\<exists>p room. events (emit_step sockid so out n b) = events b @ [(''step'', p, room)]"
  by (simp add: emit_step_def emit_def)

lemma sessions_emit_step [simp]: "sessions (emit_step sockid so out n b) = sessions b"
  by (simp add: emit_step_def)

lemma clear_gate_frame:
  assumes "clear_gate sockid b = (r, c)"
  shows "sessions c sockid = sessions b sockid" and "events c = events b"
  using assms
  by (auto simp: clear_gate_def Let_def save_session_def split: if_splits sum.splits)

lemma keys_await_next:
  assumes "await_next sockid gid it b = (r, c)"
    and "known_writes s0 (at_wait it)" and "known_writes s0 (at_sleep it)"
    and "fst ` set (sessions b sockid) \<subseteq> fst ` set s0"
  shows "fst ` set (sessions c sockid) \<subseteq> fst ` set s0"
proof (cases "lock_of (sessions b sockid)")
  case (Inl e)
  with assms(1) have "c = save_session sockid (sessions b sockid) b"
    by (simp add: await_next_def Let_def)
  then show ?thesis using assms(4) by (simp add: sessions_saved)
next
  case (Inr u)
  obtain w b1 where gw: "gate_wait sockid gid (at_wait it) b = (w, b1)"
    by (cases "gate_wait sockid gid (at_wait it) b")
  show ?thesis
  proof (cases w)
    case (Inl x)
    with assms(1) Inr gw have "c = save_session sockid (sessions b sockid) b1"
      by (simp add: await_next_def Let_def)
    then show ?thesis using assms(4) by (simp add: sessions_saved)
  next
    case (Inr v)
    with assms(1) \<open>lock_of (sessions b sockid) = Inr u\<close> gw
    have gs: "gevent_sleep sockid gid (at_sleep it) (save_session sockid (sessions b sockid) b1) = (r, c)"
      by (simp add: await_next_def Let_def event_truthy_def)
    show ?thesis
      by (rule keys_gevent_sleep[OF gs assms(3)]) (simp add: sessions_saved assms(4))
  qed
qed


lemma incr_known:
  assumes "map_of copy ''num_sent'' = Some (SInt n)"
  shows "incr_num_sent copy = Inr (dict_set copy ''num_sent'' (SInt (n + 1)), n + 1)"
  using assms by (simp add: incr_num_sent_def)

lemma dict_set_again [simp]: "dict_set (dict_set d k v) k w = dict_set d k w"
  by (simp add: dict_set_def)

lemma dict_set_same: "map_of d k = Some v \<Longrightarrow> dict_set d k v = d"
  by (simp add: dict_set_def update_triv)

lemma run_loop_write_back:
  assumes "run_loop sess sockid gid so its copy b = (r, copy', c)"
    and "fst ` set (sessions b sockid) \<subseteq> fst ` set s0"
    and "map_of copy ''num_sent'' = Some (SInt n)"
    and "list_all (\<lambda>it. known_writes s0 (at_wait it) \<and> known_writes s0 (at_sleep it)) its"
  shows "fst ` set (sessions c sockid) \<subseteq> fst ` set s0 \<and>
         (\<exists>new. events c = events b @ new \<and>
                copy' = dict_set copy ''num_sent''
                          (SInt (n + int (length (filter (\<lambda>ev. fst ev = ''step'') new)))))"
  using assms
proof (induction its arbitrary: copy b n)
  case Nil
  have "c = server_of (model_step sess None b)" and "copy' = copy"
    using Nil.prems(1) by (cases "model_step sess None b"; simp)+
  then show ?case
    using Nil.prems(2,3) by (simp add: sessions_model_step events_model_step dict_set_same)
next
  case (Cons it its)
  have stop: ?case if "c = server_of (model_step sess (Some it) b)" "copy' = copy"
    using that Cons.prems(2,3) by (simp add: sessions_model_step events_model_step dict_set_same)
  show ?case
  proof (cases "model_step sess (Some it) b")
    case (Break b1) with Cons.prems(1) stop show ?thesis by simp
  next
    case (Fail e b1) with Cons.prems(1) stop show ?thesis by simp
  next
    case (Out out b1)
    from Out have s1: "sessions b1 = sessions b" and e1: "events b1 = events b"
      using sessions_model_step[of sess "Some it" b] events_model_step[of sess "Some it" b] by simp_all
    define copy1 where "copy1 = dict_set copy ''num_sent'' (SInt (n + 1))"
    have inc: "incr_num_sent copy = Inr (copy1, n + 1)"
      unfolding copy1_def by (rule incr_known[OF Cons.prems(3)])
    define b1' where "b1' = emit_step sockid so out (n + 1) b1"
    obtain p room where ev1: "events b1' = events b @ [(''step'', p, room)]"
      using emit_step_event[of sockid so out "n + 1" b1] e1 by (auto simp: b1'_def)
    have ses1: "sessions b1' = sessions b" by (simp add: b1'_def s1)
    obtain r2 b2 where cg: "clear_gate sockid b1' = (r2, b2)" by (cases "clear_gate sockid b1'")
    note cgf = clear_gate_frame[OF cg]
    have k2: "fst ` set (sessions b2 sockid) \<subseteq> fst ` set s0"
      using cgf(1) ses1 Cons.prems(2) by simp
    have ev2: "events b2 = events b @ [(''step'', p, room)]" using cgf(2) ev1 by simp
    have one: "copy1 = dict_set copy ''num_sent''
                 (SInt (n + int (length (filter (\<lambda>ev. fst ev = ''step'') [(''step'', p, room)]))))"
      by (simp add: copy1_def)
    show ?thesis
    proof (cases r2)
      case (Some x)
      with Cons.prems(1) Out inc cg have "c = b2" "copy' = copy1" by (simp_all add: b1'_def)
      with k2 ev2 one show ?thesis by blast
    next
      case None
      obtain r3 b3 where an: "await_next sockid gid it b2 = (r3, b3)"
        by (cases "await_next sockid gid it b2")
      from Cons.prems(4) have kw: "known_writes s0 (at_wait it)" "known_writes s0 (at_sleep it)"
        and rest: "list_all (\<lambda>it. known_writes s0 (at_wait it) \<and> known_writes s0 (at_sleep it)) its"
        by simp_all
      have k3: "fst ` set (sessions b3 sockid) \<subseteq> fst ` set s0"
        by (rule keys_await_next[OF an kw k2])
      have ev3: "events b3 = events b @ [(''step'', p, room)]"
        using await_next_silent[OF an] ev2 by simp
      show ?thesis
      proof (cases r3)
        case (Some x)
        with Cons.prems(1) Out inc cg None an have "c = b3" "copy' = copy1"
          by (simp_all add: b1'_def)
        with k3 ev3 one show ?thesis by blast
      next
        case None
        with Cons.prems(1) Out inc cg \<open>r2 = None\<close> an
        have rl: "run_loop sess sockid gid so its copy1 b3 = (r, copy', c)"
          by (simp add: b1'_def)
        have m1: "map_of copy1 ''num_sent'' = Some (SInt (n + 1))"
          by (simp add: copy1_def map_of_dict_set)
        from Cons.IH[OF rl k3 m1 rest] obtain new where
          kc: "fst ` set (sessions c sockid) \<subseteq> fst ` set s0" and
          evc: "events c = events b3 @ new" and
          cp: "copy' = dict_set copy1 ''num_sent''
                         (SInt (n + 1 + int (length (filter (\<lambda>ev. fst ev = ''step'') new))))"
          by blast
        have "events c = events b @ ((''step'', p, room) # new)" using evc ev3 by simp
        moreover have "copy' = dict_set copy ''num_sent''
           (SInt (n + int (length (filter (\<lambda>ev. fst ev = ''step'') ((''step'', p, room) # new)))))"
          using cp by (simp add: copy1_def add.assoc)
        ultimately show ?thesis using kc by blast
      qed
    qed
  qed
qed


lemma unwind_write_back:
  assumes "unwind sockid (r, copy, b) = (grn, c)"
    and "fst ` set (sessions b sockid) \<subseteq> fst ` set copy"
  shows "sessions c sockid = copy \<and>
         (\<exists>post. events c = events b @ post \<and> filter (\<lambda>ev. fst ev = ''step'') post = [])"
proof -
  define b1 where "b1 = report sockid r b"
  have s1: "sessions b1 = sessions b" by (simp add: b1_def)
  obtain post1 where e1: "events b1 = events b @ post1"
    and n1: "filter (\<lambda>ev. fst ev = ''step'') post1 = []"
  proof (cases r)
    case None
    then have "events b1 = events b @ []" by (simp add: b1_def report_def)
    then show ?thesis using that by simp
  next
    case (Some x)
    then show ?thesis using that[of "[(if x = GreenletExit then ''killed'' else ''runtimeError'',
        (case x of GreenletExit \<Rightarrow> Msg ''Model run terminated early''
           | Exc e \<Rightarrow> Msg (json_exception_message e)), Some sockid)]"]
      by (cases x) (simp_all add: b1_def report_def emit_def)
  qed
  have nf: "find (\<lambda>k. \<not> dict_in k copy) (map fst (sessions b1 sockid)) = None"
    using assms(2) s1 by (auto simp: find_None_iff dict_in_keys)
  have fb: "finally_block sockid copy b1 =
              (None, save_session sockid copy (save_session sockid (sessions b1 sockid) b1))"
    using nf by (simp add: finally_block_def Let_def)
  define b2 where "b2 = save_session sockid copy (save_session sockid (sessions b1 sockid) b1)"
  have s2: "sessions b2 sockid = copy" and e2: "events b2 = events b1"
    by (simp_all add: b2_def save_session_def)
  have "c = b2 \<or> c = emit ''complete'' (Msg ''Model run completed'') None b2"
    using assms(1) fb by (auto simp: unwind_def b1_def b2_def split: option.splits)
  then show ?thesis
  proof
    assume "c = b2"
    with s2 e2 e1 n1 show ?thesis by simp
  next
    assume c: "c = emit ''complete'' (Msg ''Model run completed'') None b2"
    then have "events c = events b @ (post1 @ [(''complete'', Msg ''Model run completed'', None)])"
      by (simp add: emit_def e2 e1)
    moreover have "filter (\<lambda>ev. fst ev = ''step'')
                     (post1 @ [(''complete'', Msg ''Model run completed'', None)]) = []"
      using n1 by simp
    ultimately show ?thesis using c s2 by (metis sessions_emit)
  qed
qed

text \<open>
  When the environment stores no new key in the session and \<open>num_sent\<close> is a number at
  entry, every run, however it ends, leaves in the session store the session as it was at
  task entry with \<open>num_sent\<close> advanced by the number of \<open>step\<close> events of the run: whatever
  other handlers wrote during the run is overwritten.
\<close>

theorem copy_written_back:
  assumes "map_of (sessions srv sockid) ''num_sent'' = Some (SInt n0)"
    and "no_new_keys (sessions srv sockid) e"
  shows "sessions (snd (execute_async_model sess sockid gid so e srv)) sockid =
           dict_set (sessions srv sockid) ''num_sent''
             (SInt (n0 + int (steps_sent (length (events srv))
                                (events (snd (execute_async_model sess sockid gid so e srv))))))"
proof -
  define s0 where "s0 = sessions srv sockid"
  obtain r0 b0 where as: "await_start sockid gid (at_start e) srv = (r0, b0)"
    by (cases "await_start sockid gid (at_start e) srv")
  have ses0: "sessions b0 sockid = s0" using await_start_session[OF as] by (simp add: s0_def)
  from await_start_no_step[OF as] obtain pre where
    ev0: "events b0 = events srv @ pre" and np: "filter (\<lambda>ev. fst ev = ''step'') pre = []"
    by blast
  obtain r copy b new where
    body: "(case await_start sockid gid (at_start e) srv of
              (Some r, srv1) \<Rightarrow> (Some r, s0, srv1)
            | (None, srv1) \<Rightarrow> run_loop sess sockid gid so (iterations e) s0 srv1) = (r, copy, b)"
    and kb: "fst ` set (sessions b sockid) \<subseteq> fst ` set s0"
    and evb: "events b = events b0 @ new"
    and cp: "copy = dict_set s0 ''num_sent''
                      (SInt (n0 + int (length (filter (\<lambda>ev. fst ev = ''step'') new))))"
  proof (cases r0)
    case (Some x)
    have "copy0 = dict_set s0 ''num_sent''
            (SInt (n0 + int (length (filter (\<lambda>ev. fst ev = ''step'') []))))" if "copy0 = s0" for copy0
      using that assms(1) by (simp add: dict_set_same s0_def)
    then show ?thesis using that[of "Some x" s0 b0 "[]"] as Some ses0 by simp
  next
    case None
    obtain r1 copy1 b1 where rl: "run_loop sess sockid gid so (iterations e) s0 b0 = (r1, copy1, b1)"
      by (cases "run_loop sess sockid gid so (iterations e) s0 b0") auto
    have k0: "fst ` set (sessions b0 sockid) \<subseteq> fst ` set s0" by (simp add: ses0)
    have m0: "map_of s0 ''num_sent'' = Some (SInt n0)" using assms(1) by (simp add: s0_def)
    have its: "list_all (\<lambda>it. known_writes s0 (at_wait it) \<and> known_writes s0 (at_sleep it))
                 (iterations e)"
      using assms(2) by (simp add: no_new_keys_def s0_def)
    from run_loop_write_back[OF rl k0 m0 its] obtain new1 where
      "fst ` set (sessions b1 sockid) \<subseteq> fst ` set s0" "events b1 = events b0 @ new1"
      "copy1 = dict_set s0 ''num_sent''
                 (SInt (n0 + int (length (filter (\<lambda>ev. fst ev = ''step'') new1))))"
      by blast
    then show ?thesis using that[of r1 copy1 b1 new1] as None rl by simp
  qed
  obtain grn c where uw: "unwind sockid (r, copy, b) = (grn, c)"
    by (cases "unwind sockid (r, copy, b)")
  have kc: "fst ` set (sessions b sockid) \<subseteq> fst ` set copy"
    using kb by (auto simp: cp keys_dict_set)
  from unwind_write_back[OF uw kc] obtain post where
    sc: "sessions c sockid = copy" and evc: "events c = events b @ post"
    and npost: "filter (\<lambda>ev. fst ev = ''step'') post = []"
    by blast
  have ex: "execute_async_model sess sockid gid so e srv = (grn, c)"
    using body uw unfolding execute_async_model_def Let_def s0_def by simp
  have "events c = events srv @ pre @ new @ post" using evc evb ev0 by simp
  then have "steps_sent (length (events srv)) (events c) =
               length (filter (\<lambda>ev. fst ev = ''step'') new)"
    using np npost by (simp add: steps_sent_def)
  then show ?thesis using ex sc cp by (simp add: s0_def)
qed

end
